theory Spec2Isabelle
  imports Main "HOL-Library.Word" "HOL-Library.List_Lexorder" "HOL-Library.Char_ord"
begin

section \<open>Data model of \<^verbatim>\<open>optparse\<close>\<close>

text \<open>
  The class \<^verbatim>\<open>optparse\<close> of \<^verbatim>\<open>optparse.hpp\<close> holds the program name, the registry
  \<^verbatim>\<open>options\<close> (a \<^verbatim>\<open>std::map\<close> from option name to \<^verbatim>\<open>parameters\<close>) and the value store
  \<^verbatim>\<open>values\<close> (a \<^verbatim>\<open>std::map\<close> from option name to the raw string).

  The registry is iterated by \<^verbatim>\<open>parse\<close> and \<^verbatim>\<open>dump\<close>, so it is an association list kept
  in the key order of \<^verbatim>\<open>std::map\<close> (bytewise lexicographic order of the names). The value
  store is only ever searched, inserted into, merged and erased from, so it is a map.
  \<^verbatim>\<open>size_t\<close> values are natural numbers; the casts to \<^verbatim>\<open>int\<close> are written out.
  The member \<^verbatim>\<open>values\<close> is the field \<open>values'\<close>, and \<^verbatim>\<open>insert_option_impl_\<close> is
  \<open>insert_option_impl\<close>, since Isabelle reserves the one name and refuses the other.
\<close>

record parameters =
  nargs :: nat
  default_value :: string
  description :: string
  user_option :: bool

type_synonym registry = "(string \<times> parameters) list"

type_synonym value_store = "string \<rightharpoonup> string"

record optparse =
  program_name :: string
  options :: registry
  values' :: value_store

datatype action_t = store_true | store_false

text \<open>
  One constructor per \<^verbatim>\<open>throw\<close> of the source; \<open>what\<close> is the message of the exception.
  The last one is thrown by the library: \<^verbatim>\<open>std::string(p)\<close> for a null pointer \<open>p\<close> throws
  \<^verbatim>\<open>std::logic_error\<close>, as the constructor of libstdc++ does; the message is the one of its
  current releases, and nothing below depends on it but that it is not empty.
  All of them are \<^verbatim>\<open>std::invalid_argument\<close>, \<^verbatim>\<open>std::runtime_error\<close> or \<^verbatim>\<open>std::logic_error\<close>,
  hence caught by \<^verbatim>\<open>catch (const std::exception&)\<close> where they are thrown in a \<^verbatim>\<open>try\<close> block.
\<close>

datatype error =
    option_exists string
  | no_leading_dash
  | unknown_argument string
  | insufficient_values
  | duplicate_cmdline string
  | missing_argument string
  | invalid_conversion string string
  | no_argument_passed string
  | open_failed string
  | unexpected_in_file string
  | duplicate_in_file string
  | null_string

fun what :: "error \<Rightarrow> string" where
  "what (option_exists name) = ''optparse::insert_option: option already exists: '' @ name"
| "what no_leading_dash =
     ''optparse::parse: argument options must start with a single/double dash''"
| "what (unknown_argument key) = ''optparse::parse: unknow argument: '' @ key"
| "what insufficient_values = ''optparse::parse: insufficient number of argument values''"
| "what (duplicate_cmdline key) =
     ''optparse::parse: duplicate option passed by command line: '' @ key"
| "what (missing_argument name) = ''optparse::parse: missing argument(s), e.g., '' @ name"
| "what (invalid_conversion argument tname) =
     ''Invalid conversion of the argument '' @ [CHR 0x27] @ argument @ [CHR 0x27]
       @ '' to type '' @ tname"
| "what (no_argument_passed name) =
     ''optparse::retrieve no argument has been passed to option: '' @ name"
| "what (open_failed pathname) =
     ''optparse::parse: opening file '' @ [CHR 0x27] @ pathname @ [CHR 0x27]
       @ '' failed, it either doesn'' @ [CHR 0x27] @ ''t exist or is not accessible.''"
| "what (unexpected_in_file key) =
     ''optparse::parse: read an unexpected option from the configuration file: '' @ key"
| "what (duplicate_in_file key) =
     ''optparse::parse: duplicate option found in the configuration file: '' @ key"
| "what null_string = ''basic_string: construction from null is not valid''"

text \<open>
  The error kinds of the specification, section 7, and one more for the exception of
  the library, which the specification does not name.
\<close>

datatype error_kind =
    DuplicateOption | UnknownOption | MalformedArgument | InsufficientArguments
  | MissingArgument | ConversionError | IOError | LibraryError

fun kind :: "error \<Rightarrow> error_kind" where
  "kind (option_exists _) = DuplicateOption"
| "kind no_leading_dash = MalformedArgument"
| "kind (unknown_argument _) = UnknownOption"
| "kind insufficient_values = InsufficientArguments"
| "kind (duplicate_cmdline _) = DuplicateOption"
| "kind (missing_argument _) = MissingArgument"
| "kind (invalid_conversion _ _) = ConversionError"
| "kind (no_argument_passed _) = MissingArgument"
| "kind (open_failed _) = IOError"
| "kind (unexpected_in_file _) = UnknownOption"
| "kind (duplicate_in_file _) = DuplicateOption"
| "kind null_string = LibraryError"

section \<open>Library functions used by the source\<close>

definition nl :: char where
  "nl = CHR 0x0A"

text \<open>\<^verbatim>\<open>(int) x\<close> for a \<^verbatim>\<open>size_t x\<close>: the low 32 bits, read as a signed number.\<close>

definition to_int :: "nat \<Rightarrow> int" where
  "to_int n = sint (word_of_nat n :: 32 word)"

text \<open>\<^verbatim>\<open>std::to_string\<close> of a \<^verbatim>\<open>bool\<close> (promoted to \<^verbatim>\<open>int\<close>).\<close>

definition to_string_bool :: "bool \<Rightarrow> string" where
  "to_string_bool b = (if b then ''1'' else ''0'')"

text \<open>\<^verbatim>\<open>strspn(s, accept)\<close>: the length of the longest prefix made of bytes of \<open>accept\<close>.\<close>

definition strspn :: "string \<Rightarrow> string \<Rightarrow> nat" where
  "strspn s accept = length (takeWhile (\<lambda>c. c \<in> set accept) s)"

text \<open>\<^verbatim>\<open>isspace\<close> in the C locale: space, \<^verbatim>\<open>\t \n \v \f \r\<close>.\<close>

definition isspace :: "char \<Rightarrow> bool" where
  "isspace c = (c \<in> {CHR '' '', CHR 0x09, CHR 0x0A, CHR 0x0B, CHR 0x0C, CHR 0x0D})"

text \<open>
  \<^verbatim>\<open>s.find(c, start)\<close>: the first position at or after \<open>start\<close> that holds \<open>c\<close>;
  \<open>None\<close> is \<^verbatim>\<open>std::string::npos\<close>.
\<close>

fun find_from :: "string \<Rightarrow> char \<Rightarrow> nat \<Rightarrow> nat option" where
  "find_from [] c start = None"
| "find_from (x # xs) c 0 = (if x = c then Some 0 else map_option Suc (find_from xs c 0))"
| "find_from (x # xs) c (Suc k) = map_option Suc (find_from xs c k)"

text \<open>
  \<^verbatim>\<open>s.substr(pos, count)\<close> for \<open>pos \<le> length s\<close> (the only way the source calls it);
  the count \<open>None\<close> is \<^verbatim>\<open>npos\<close>, the rest of the string.
\<close>

definition substr :: "string \<Rightarrow> nat \<Rightarrow> nat option \<Rightarrow> string" where
  "substr s pos count = (case count of None \<Rightarrow> drop pos s | Some n \<Rightarrow> take n (drop pos s))"

text \<open>
  The loop \<^verbatim>\<open>for (std::string line; std::getline(config, line); )\<close>: the lines of a
  file's content, read byte by byte. \<open>cur\<close> is the line being read; a last line without
  its newline is still delivered, and \<^verbatim>\<open>getline\<close> fails (ending the loop) when no byte
  is left.
\<close>

fun getlines_from :: "string \<Rightarrow> string \<Rightarrow> string list" where
  "getlines_from cur [] = (if cur = [] then [] else [cur])"
| "getlines_from cur (c # cs) =
     (if c = nl then cur # getlines_from [] cs else getlines_from (cur @ [c]) cs)"

definition getlines :: "string \<Rightarrow> string list" where
  "getlines content = getlines_from [] content"

section \<open>The registry\<close>

text \<open>\<^verbatim>\<open>options.find(key)\<close>, with \<open>None\<close> for \<^verbatim>\<open>options.end()\<close>.\<close>

definition find_option :: "registry \<Rightarrow> string \<Rightarrow> parameters option" where
  "find_option opts key = map_of opts key"

text \<open>
  \<^verbatim>\<open>options.try_emplace(name, p)\<close>: nothing is inserted when the key exists; a new entry
  goes to its place in key order.
\<close>

fun try_emplace :: "string \<Rightarrow> parameters \<Rightarrow> registry \<Rightarrow> registry \<times> bool" where
  "try_emplace name p [] = ([(name, p)], True)"
| "try_emplace name p ((k, q) # rest) =
     (if name = k then ((k, q) # rest, False)
      else if name < k then ((name, p) # (k, q) # rest, True)
      else (case try_emplace name p rest of (rest', inserted) \<Rightarrow> ((k, q) # rest', inserted)))"

definition insert_option_impl :: "string \<Rightarrow> parameters \<Rightarrow> registry \<Rightarrow> error + registry" where
  "insert_option_impl name p opts =
     (case try_emplace name p opts of
        (opts', inserted) \<Rightarrow> if \<not> inserted then Inl (option_exists name) else Inr opts')"

definition insert_option ::
  "string \<Rightarrow> nat \<Rightarrow> string \<Rightarrow> string \<Rightarrow> registry \<Rightarrow> error + registry" where
  "insert_option name n descr dflt opts =
     insert_option_impl name
       \<lparr>nargs = n, default_value = dflt, description = descr, user_option = True\<rparr> opts"

definition insert_option_boolean ::
  "string \<Rightarrow> action_t \<Rightarrow> string \<Rightarrow> registry \<Rightarrow> error + registry" where
  "insert_option_boolean name action descr opts =
     insert_option name 0 descr (if action = store_true then ''0'' else ''1'') opts"

definition help_parameters :: parameters where
  "help_parameters =
     \<lparr>nargs = 0, default_value = [], description = ''Print this message'', user_option = False\<rparr>"

definition load_parameters :: parameters where
  "load_parameters =
     \<lparr>nargs = 1, default_value = [],
      description = ''Load settings from configuration file'', user_option = False\<rparr>"

text \<open>
  The constructor: the two built-in options, inserted into the empty registry (neither
  insertion can fail), an empty program name and an empty value store.
\<close>

definition constructor_options :: registry where
  "constructor_options =
     fst (try_emplace ''load'' load_parameters
       (fst (try_emplace ''help'' help_parameters [])))"

definition new_optparse :: optparse where
  "new_optparse = \<lparr>program_name = [], options = constructor_options, values' = Map.empty\<rparr>"

section \<open>The files\<close>

text \<open>
  The file system as the code sees it: the content of each existing file, and the paths
  that cannot be opened (\<^verbatim>\<open>is_open()\<close> is false). A file that does not exist cannot be
  opened for reading; opened for appending, it is created.
\<close>

record file_system =
  files :: "string \<rightharpoonup> string"
  denied :: "string \<Rightarrow> bool"

definition open_in :: "file_system \<Rightarrow> string \<Rightarrow> string option" where
  "open_in fs pathname = (if denied fs pathname then None else files fs pathname)"

definition open_app :: "file_system \<Rightarrow> string \<Rightarrow> string option" where
  "open_app fs pathname =
     (if denied fs pathname then None
      else Some (case files fs pathname of None \<Rightarrow> [] | Some old \<Rightarrow> old))"

section \<open>\<^verbatim>\<open>load\<close>\<close>

text \<open>
  The body of the loop over the lines, with the map built so far. \<^verbatim>\<open>line[0]\<close> of an empty
  line is the terminating zero byte, so the test for the empty line may come first.
  \<^verbatim>\<open>delimiterPos + 1\<close> wraps to \<open>0\<close> when \<^verbatim>\<open>find\<close> returned \<^verbatim>\<open>npos\<close>.
\<close>

fun load_lines :: "registry \<Rightarrow> value_store \<Rightarrow> string list \<Rightarrow> error + value_store" where
  "load_lines opts vals [] = Inr vals"
| "load_lines opts vals (raw # rest) =
     (let line = filter (\<lambda>c. \<not> isspace c) raw in
      if line = [] \<or> hd line = CHR ''#'' then load_lines opts vals rest
      else
        let delimiterPos = find_from line CHR '':'' 0;
            key = substr line 0 delimiterPos;
            value = substr line (case delimiterPos of None \<Rightarrow> 0 | Some p \<Rightarrow> p + 1) None
        in if find_option opts key = None then Inl (unexpected_in_file key)
           else if vals key \<noteq> None then Inl (duplicate_in_file key)
           else load_lines opts (vals(key \<mapsto> value)) rest)"

definition load :: "registry \<Rightarrow> file_system \<Rightarrow> string \<Rightarrow> error + value_store" where
  "load opts fs pathname =
     (case open_in fs pathname of
        None \<Rightarrow> Inl (open_failed pathname)
      | Some content \<Rightarrow> load_lines opts Map.empty (getlines content))"

section \<open>\<^verbatim>\<open>dump\<close>\<close>

text \<open>
  What the loop over the registry writes for one option. \<open>mbstr\<close> is the buffer that
  \<^verbatim>\<open>strftime\<close> filled, empty when it returned \<open>0\<close>.
\<close>

definition dump_entry :: "value_store \<Rightarrow> string \<times> parameters \<Rightarrow> string" where
  "dump_entry vals option =
     (let key = fst option in
      case vals key of
        Some v \<Rightarrow> key @ '': '' @ v @ [nl]
      | None \<Rightarrow>
          if user_option (snd option) then key @ '': '' @ default_value (snd option) @ [nl]
          else [])"

definition dump_header :: "string \<Rightarrow> string" where
  "dump_header mbstr =
     (if length mbstr \<noteq> 0
      then [nl] @ ''# Created automaticaly by optparse on '' @ mbstr @ [nl] @ [nl]
      else [nl] @ ''# Created automaticaly by optparse'' @ [nl] @ [nl])"

definition dump_text :: "string \<Rightarrow> optparse \<Rightarrow> string" where
  "dump_text mbstr st =
     dump_header mbstr @ concat (map (dump_entry (values' st)) (options st)) @ [nl]"

definition dump :: "optparse \<Rightarrow> file_system \<Rightarrow> string \<Rightarrow> string \<Rightarrow> error + file_system" where
  "dump st fs mbstr pathname =
     (case open_app fs pathname of
        None \<Rightarrow> Inl (open_failed pathname)
      | Some old \<Rightarrow> Inr (fs\<lparr>files := (files fs)(pathname \<mapsto> old @ dump_text mbstr st)\<rparr>))"

section \<open>\<^verbatim>\<open>retrieve\<close>\<close>

text \<open>
  The lambda \<^verbatim>\<open>split\<close>: \<open>start\<close> and \<open>fin\<close> are its variables \<^verbatim>\<open>start\<close> and \<^verbatim>\<open>end\<close>,
  \<open>i\<close> the loop counter. The loop ends when no further comma is found, and then the
  rest of the string from \<open>start\<close> is returned.
\<close>

function split_loop :: "string \<Rightarrow> int \<Rightarrow> nat \<Rightarrow> nat option \<Rightarrow> int \<Rightarrow> string" where
  "split_loop s pos start fin i =
     (case fin of
        None \<Rightarrow> substr s start None
      | Some e \<Rightarrow>
          if i = pos then substr s start (Some (e - start))
          else split_loop s pos (e + 1) (find_from s CHR '','' (e + 1)) (i + 1))"
  by pat_completeness auto

lemma find_from_bounds: "find_from s c k = Some e \<Longrightarrow> k \<le> e \<and> e < length s"
  by (induction s c k arbitrary: e rule: find_from.induct) (auto split: if_splits)

termination split_loop
proof (relation "measure (\<lambda>(s, pos, start, fin, i).
    case fin of None \<Rightarrow> 0 | Some e \<Rightarrow> Suc (length s - e))")
  show "wf (measure (\<lambda>(s, pos, start, fin, i).
    case fin of None \<Rightarrow> 0 | Some e \<Rightarrow> Suc (length s - e)))"
    by simp
next
  fix s :: string and pos :: int and start :: nat and fin :: "nat option" and i :: int and e :: nat
  assume "fin = Some e" "i \<noteq> pos"
  show "((s, pos, e + 1, find_from s CHR '','' (e + 1), i + 1), (s, pos, start, fin, i))
      \<in> measure (\<lambda>(s, pos, start, fin, i).
          case fin of None \<Rightarrow> 0 | Some e \<Rightarrow> Suc (length s - e))"
  proof (cases "find_from s CHR '','' (e + 1)")
    case None
    then show ?thesis using \<open>fin = Some e\<close> by simp
  next
    case (Some e')
    from find_from_bounds [OF Some] have "e + 1 \<le> e'" "e' < length s" by simp_all
    then show ?thesis using \<open>fin = Some e\<close> Some by simp
  qed
qed

definition split :: "string \<Rightarrow> int \<Rightarrow> string" where
  "split s pos = split_loop s pos 0 (find_from s CHR '','' 0) 0"

text \<open>
  \<^verbatim>\<open>retrieve<T, n>(name)\<close>. The conversion \<^verbatim>\<open>std::stringstream(argument) >> value\<close> is the
  parameter \<open>extract\<close> (\<open>None\<close> when the stream fails), and \<open>tname\<close> is
  \<^verbatim>\<open>typeid(T).name()\<close>. The template argument \<open>n\<close> is a \<^verbatim>\<open>size_t\<close>, passed to the
  \<^verbatim>\<open>int pos\<close> of \<^verbatim>\<open>split\<close>.
\<close>

definition convert :: "string \<Rightarrow> (string \<Rightarrow> 'a option) \<Rightarrow> string \<Rightarrow> error + 'a" where
  "convert tname extract argument =
     (case extract argument of
        None \<Rightarrow> Inl (invalid_conversion argument tname)
      | Some v \<Rightarrow> Inr v)"

definition retrieve ::
  "string \<Rightarrow> (string \<Rightarrow> 'a option) \<Rightarrow> optparse \<Rightarrow> string \<Rightarrow> nat \<Rightarrow> error + 'a" where
  "retrieve tname extract st name n =
     (case values' st name of
        Some raw \<Rightarrow> convert tname extract (split raw (to_int n))
      | None \<Rightarrow>
          (case find_option (options st) name of
             None \<Rightarrow> Inl (no_argument_passed name)
           | Some option \<Rightarrow>
               if length (default_value option) \<noteq> 0
               then convert tname extract
                      (if nargs option = 0 then to_string_bool (default_value option \<noteq> ''0'')
                       else split (default_value option) (to_int n))
               else Inl (no_argument_passed name)))"

subsection \<open>Stream extraction\<close>

text \<open>
  The conversion that \<^verbatim>\<open>retrieve\<close> calls is \<^verbatim>\<open>operator>>\<close> of the C++ standard library on a
  \<^verbatim>\<open>std::stringstream\<close> in its default state (\<^verbatim>\<open>skipws\<close>, decimal, no \<^verbatim>\<open>boolalpha\<close>, classic
  locale). For \<^verbatim>\<open>int\<close> and \<^verbatim>\<open>bool\<close> the standard prescribes: skip leading white space, read
  an optional sign and the longest run of decimal digits, and fail when there is no
  digit or when the number does not fit the target (for \<^verbatim>\<open>bool\<close>: is neither 0 nor 1).
  What follows the digits stays in the stream and does not make the extraction fail.
\<close>

definition isdigit :: "char \<Rightarrow> bool" where
  "isdigit c = (c \<in> set ''0123456789'')"

definition digit_value :: "char \<Rightarrow> int" where
  "digit_value c = int (of_char c) - 48"

definition extract_integer :: "string \<Rightarrow> int option" where
  "extract_integer s =
     (let s1 = dropWhile isspace s;
          negative = (s1 \<noteq> [] \<and> hd s1 = CHR ''-'');
          s2 = (if s1 \<noteq> [] \<and> (hd s1 = CHR ''-'' \<or> hd s1 = CHR ''+'') then tl s1 else s1);
          digits = takeWhile isdigit s2
      in if digits = [] then None
         else Some ((if negative then - 1 else 1)
                * foldl (\<lambda>acc c. 10 * acc + digit_value c) 0 digits))"

definition extract_int :: "string \<Rightarrow> int option" where
  "extract_int s =
     (case extract_integer s of
        None \<Rightarrow> None
      | Some v \<Rightarrow> if - 2147483648 \<le> v \<and> v \<le> 2147483647 then Some v else None)"

definition extract_bool :: "string \<Rightarrow> bool option" where
  "extract_bool s =
     (case extract_integer s of
        None \<Rightarrow> None
      | Some v \<Rightarrow> if v = 0 then Some False else if v = 1 then Some True else None)"

section \<open>\<^verbatim>\<open>usage\<close>\<close>

text \<open>
  \<^verbatim>\<open>usage\<close> writes the listing of the options to \<^verbatim>\<open>std::clog\<close>, which no caller reads and
  which does not influence its result; the model keeps what it writes to \<^verbatim>\<open>std::cerr\<close>
  and what it returns.
\<close>

definition usage :: "string \<Rightarrow> string \<times> int" where
  "usage error_message =
     (if length error_message \<noteq> 0
      then (''terminate called after throwing an exception'' @ [nl]
              @ ''  what: '' @ error_message @ [nl], - 1)
      else ([], 1))"

section \<open>\<^verbatim>\<open>parse\<close>\<close>

text \<open>
  How a piece of code ends: by an exception that leaves it, at its end with a value, or
  in undefined behaviour. The only undefined behaviour that the model keeps apart is the
  signed overflow of \<^verbatim>\<open>(int) nargs + 1\<close>, for an arity whose cast to \<^verbatim>\<open>int\<close> is \<^verbatim>\<open>INT_MAX\<close>.
  The \<^verbatim>\<open>try\<close> block of \<^verbatim>\<open>parse\<close> ends with the value of \<^verbatim>\<open>ierr\<close>.
\<close>

datatype 'a outcome = Thrown error | Finished 'a | Undefined

text \<open>\<^verbatim>\<open>values.try_emplace(key, value)\<close> on the value store.\<close>

definition store_emplace :: "string \<Rightarrow> string \<Rightarrow> value_store \<Rightarrow> value_store \<times> bool" where
  "store_emplace key v vals =
     (case vals key of None \<Rightarrow> (vals(key \<mapsto> v), True) | Some _ \<Rightarrow> (vals, False))"

text \<open>
  The value of an option and the number of tokens consumed after the option's own
  token. \<open>rest\<close> are the tokens after it, so \<^verbatim>\<open>argc - i\<close> is \<open>length rest + 1\<close>. When the
  cast of the arity is not positive the test for enough values passes with no token
  left, and \<^verbatim>\<open>argv[++i]\<close> is \<^verbatim>\<open>argv[argc]\<close>, the null pointer.
\<close>

definition option_value :: "parameters \<Rightarrow> string list \<Rightarrow> int outcome + string \<times> nat" where
  "option_value option rest =
     (if nargs option = 0 then Inr (to_string_bool (default_value option = ''0''), 0)
      else if to_int (nargs option) = 2147483647 then Inl Undefined
      else if int (length rest) + 1 < to_int (nargs option) + 1
        then Inl (Thrown insufficient_values)
      else
        (case rest of
           [] \<Rightarrow> Inl (Thrown null_string)
         | first # others \<Rightarrow>
             Inr (first @ concat (map (\<lambda>a. '', '' @ a)
                                 (take (nat (to_int (nargs option)) - 1) others)),
                  Suc (nat (to_int (nargs option)) - 1))))"

text \<open>The loop over \<^verbatim>\<open>argv[1..]\<close>; the argument list holds the tokens not yet consumed.\<close>

fun parse_args ::
  "registry \<Rightarrow> value_store \<Rightarrow> string list \<Rightarrow> int outcome \<times> value_store" where
  "parse_args opts vals [] = (Finished 0, vals)"
| "parse_args opts vals (arg # rest) =
     (let idx = strspn arg ''-''; key = drop idx arg in
      if idx = 0 then (Thrown no_leading_dash, vals)
      else if key = ''help'' then (Finished (snd (usage [])), vals)
      else
        (case find_option opts key of
           None \<Rightarrow> (Thrown (unknown_argument key), vals)
         | Some option \<Rightarrow>
             (case option_value option rest of
                Inl out \<Rightarrow> (out, vals)
              | Inr (v, used) \<Rightarrow>
                  (case store_emplace key v vals of
                     (vals', inserted) \<Rightarrow>
                       if \<not> inserted then (Thrown (duplicate_cmdline key), vals')
                       else parse_args opts vals' (drop used rest)))))"

text \<open>The post-processing loop over the registry.\<close>

fun check_missing :: "registry \<Rightarrow> value_store \<Rightarrow> error option" where
  "check_missing [] vals = None"
| "check_missing ((name, p) # rest) vals =
     (if name = ''load'' \<or> name = ''help'' then check_missing rest vals
      else if vals name = None \<and> length (default_value p) = 0
        then Some (missing_argument name)
      else check_missing rest vals)"

text \<open>
  \<^verbatim>\<open>values.merge(load(path)); values.erase("load")\<close>: \<^verbatim>\<open>merge\<close> moves the entries whose key
  the value store does not have. When \<^verbatim>\<open>load\<close> throws, the value store is as it was.
\<close>

definition load_and_merge :: "registry \<Rightarrow> file_system \<Rightarrow> value_store \<Rightarrow> error + value_store" where
  "load_and_merge opts fs vals =
     (case vals ''load'' of
        None \<Rightarrow> Inr vals
      | Some pathname \<Rightarrow>
          (case load opts fs pathname of
             Inl e \<Rightarrow> Inl e
           | Inr loaded \<Rightarrow> Inr ((loaded ++ vals)(''load'' := None))))"

text \<open>The \<^verbatim>\<open>try\<close> block, from the value store of the instance.\<close>

definition parse_try ::
  "optparse \<Rightarrow> file_system \<Rightarrow> string list \<Rightarrow> int outcome \<times> value_store" where
  "parse_try st fs args =
     (case parse_args (options st) (values' st) args of
        (Finished ierr, vals) \<Rightarrow>
          if ierr = 0 then
            (case load_and_merge (options st) fs vals of
               Inl e \<Rightarrow> (Thrown e, vals)
             | Inr vals' \<Rightarrow>
                 (case check_missing (options st) vals' of
                    Some e \<Rightarrow> (Thrown e, vals')
                  | None \<Rightarrow> (Finished ierr, vals')))
          else (Finished ierr, vals)
      | (out, vals) \<Rightarrow> (out, vals))"

text \<open>
  \<^verbatim>\<open>parse(argc, argv)\<close> with \<open>argc = length argv\<close>. When it returns, the result is the
  return value, what was written to \<^verbatim>\<open>std::cerr\<close> and the instance afterwards. The first
  statement, \<^verbatim>\<open>program_name = std::string(argv[0])\<close>, stands before the \<^verbatim>\<open>try\<close> block:
  for \<open>argc = 0\<close>, where \<^verbatim>\<open>argv[0]\<close> is the null pointer, its exception leaves \<^verbatim>\<open>parse\<close>.
\<close>

definition parse ::
  "optparse \<Rightarrow> file_system \<Rightarrow> string list \<Rightarrow> (int \<times> string \<times> optparse) outcome" where
  "parse st fs argv =
     (case argv of
        [] \<Rightarrow> Thrown null_string
      | prog # args \<Rightarrow>
          (case parse_try st fs args of
             (Undefined, vals) \<Rightarrow> Undefined
           | (Thrown e, vals) \<Rightarrow>
               Finished (snd (usage (what e)), fst (usage (what e)),
                         st\<lparr>program_name := prog, values' := vals\<rparr>)
           | (Finished ierr, vals) \<Rightarrow>
               Finished (ierr, [], st\<lparr>program_name := prog, values' := vals\<rparr>)))"

section \<open>Registries that the interface can build\<close>

text \<open>
  A registry is built by the constructor and then by \<^verbatim>\<open>insert_option\<close> (which
  \<^verbatim>\<open>insert_option_boolean\<close> calls); nothing removes or changes an entry.
\<close>

inductive registered :: "registry \<Rightarrow> bool" where
  constructed: "registered constructor_options"
| inserted: "registered opts \<Longrightarrow> insert_option name n descr dflt opts = Inr opts' \<Longrightarrow> registered opts'"

section \<open>Notions of the specification\<close>

text \<open>The comma-separated fields of a raw value, in the words of section 4.4.\<close>

fun fields_from :: "string \<Rightarrow> string \<Rightarrow> string list" where
  "fields_from cur [] = [cur]"
| "fields_from cur (c # cs) =
     (if c = CHR '','' then cur # fields_from [] cs else fields_from (cur @ [c]) cs)"

definition comma_fields :: "string \<Rightarrow> string list" where
  "comma_fields s = fields_from [] s"

text \<open>The field that index \<open>d\<close> selects: the last one when \<open>d\<close> is out of range.\<close>

definition pick :: "string list \<Rightarrow> int \<Rightarrow> string" where
  "pick fs d = (if 0 \<le> d \<and> nat d < length fs then fs ! nat d else last fs)"

text \<open>
  What \<^verbatim>\<open>dump\<close> writes for one option in the words of section 4.3 of the specification:
  the stored value if there is one, else the default of a user-defined option if it is
  not empty, else nothing.
\<close>

definition dump_entry_spec :: "value_store \<Rightarrow> string \<times> parameters \<Rightarrow> string" where
  "dump_entry_spec vals option =
     (case vals (fst option) of
        Some v \<Rightarrow> fst option @ '': '' @ v @ [nl]
      | None \<Rightarrow>
          if user_option (snd option) \<and> default_value (snd option) \<noteq> []
          then fst option @ '': '' @ default_value (snd option) @ [nl]
          else [])"

text \<open>A string with all white space removed, as \<^verbatim>\<open>load\<close> makes a line.\<close>

definition strip :: "string \<Rightarrow> string" where
  "strip s = filter (\<lambda>c. \<not> isspace c) s"

text \<open>
  An option name that survives the way \<^verbatim>\<open>load\<close> reads a line: no white space, no colon,
  and no \<^verbatim>\<open>#\<close> in front.
\<close>

definition plain_name :: "string \<Rightarrow> bool" where
  "plain_name name =
     ((\<forall>c\<in>set name. \<not> isspace c \<and> c \<noteq> CHR '':'') \<and> (name = [] \<or> hd name \<noteq> CHR ''#''))"

text \<open>The value that \<^verbatim>\<open>dump\<close> writes for an option, if it writes a line for it.\<close>

definition written_value :: "value_store \<Rightarrow> string \<times> parameters \<Rightarrow> string option" where
  "written_value vals option =
     (case vals (fst option) of
        Some v \<Rightarrow> Some v
      | None \<Rightarrow> if user_option (snd option) then Some (default_value (snd option)) else None)"

text \<open>What \<^verbatim>\<open>load\<close> makes of the entries that \<^verbatim>\<open>dump\<close> wrote for the options \<open>xs\<close>.\<close>

definition reloaded :: "value_store \<Rightarrow> registry \<Rightarrow> value_store \<Rightarrow> value_store" where
  "reloaded vals xs acc =
     (\<lambda>k. case map_of xs k of
             None \<Rightarrow> acc k
           | Some p \<Rightarrow> (case written_value vals (k, p) of
                         None \<Rightarrow> acc k | Some w \<Rightarrow> Some (strip w)))"

section \<open>Concrete instances\<close>

text \<open>
  Registries as the constructor and \<^verbatim>\<open>insert_option\<close> build them (in key order), value
  stores and files, for the examples that follow the theorems.
\<close>

definition demo_options :: registry where
  "demo_options =
     [(''count'', \<lparr>nargs = 1, default_value = ''1'', description = [], user_option = True\<rparr>),
      (''help'', help_parameters),
      (''load'', load_parameters),
      (''verbose'', \<lparr>nargs = 0, default_value = ''0'', description = [], user_option = True\<rparr>)]"

definition demo :: optparse where
  "demo = \<lparr>program_name = [], options = demo_options, values' = Map.empty\<rparr>"

text \<open>A time stamp as \<^verbatim>\<open>strftime\<close> formats it.\<close>

definition stamp :: string where
  "stamp = ''Sun Oct 17 04:41:13 2010''"

definition no_files :: file_system where
  "no_files = \<lparr>files = Map.empty, denied = (\<lambda>p. False)\<rparr>"

definition seen5 :: optparse where
  "seen5 = demo\<lparr>program_name := ''prog'', values' := [''count'' \<mapsto> ''5'']\<rparr>"

definition cfg_files :: file_system where
  "cfg_files = \<lparr>files = [''cfg'' \<mapsto> ''count: 3'' @ [nl] @ ''verbose: 1'' @ [nl]],
                 denied = (\<lambda>p. False)\<rparr>"

definition needy :: optparse where
  "needy = \<lparr>program_name = [],
            options = [(''help'', help_parameters), (''load'', load_parameters),
              (''out'', \<lparr>nargs = 1, default_value = [], description = [], user_option = True\<rparr>)],
            values' = Map.empty\<rparr>"

definition two_set :: optparse where
  "two_set = demo\<lparr>values' := [''verbose'' \<mapsto> ''1'']\<rparr>"

definition bare_files :: file_system where
  "bare_files = \<lparr>files = [''cfg'' \<mapsto> ''# settings'' @ [nl] @ '' verbose '' @ [nl],
                            ''bad'' \<mapsto> ''count: 2'' @ [nl] @ ''colour'' @ [nl]],
                 denied = (\<lambda>p. False)\<rparr>"

definition colon_named :: optparse where
  "colon_named =
     \<lparr>program_name = [],
      options = [(''a:b'', \<lparr>nargs = 1, default_value = ''1'', description = [], user_option = True\<rparr>),
                 (''help'', help_parameters), (''load'', load_parameters)],
      values' = [''a:b'' \<mapsto> ''7'']\<rparr>"

definition two_line_default :: optparse where
  "two_line_default =
     \<lparr>program_name = [],
      options = [(''help'', help_parameters), (''load'', load_parameters),
                 (''out'', \<lparr>nargs = 1, default_value = ''1'' @ [nl] @ ''2'', description = [],
                            user_option = True\<rparr>)],
      values' = Map.empty\<rparr>"

section \<open>Facts about the registry and the token loop\<close>

lemma what_nonempty: "what e \<noteq> []"
  by (cases e) simp_all

lemma usage_what: "usage (what e) =
  (''terminate called after throwing an exception'' @ [nl] @ ''  what: '' @ what e @ [nl], - 1)"
  by (simp add: usage_def what_nonempty)

lemma usage_empty: "usage [] = ([], 1)"
  by (simp add: usage_def)

lemma load_and_merge_erases:
  "load_and_merge opts fs vals = Inr vals' \<Longrightarrow> vals' ''load'' = None"
  by (auto simp: load_and_merge_def split: option.splits sum.splits)

lemma load_and_merge_keeps:
  "load_and_merge opts fs vals = Inr vals' \<Longrightarrow> vals k = Some v \<Longrightarrow> k \<noteq> ''load'' \<Longrightarrow> vals' k = Some v"
  by (auto simp: load_and_merge_def map_add_def split: option.splits sum.splits)

text \<open>One turn of the loop, by cases.\<close>

lemma parse_args_Cons:
  "parse_args opts vals (arg # rest) =
     (if strspn arg ''-'' = 0 then (Thrown no_leading_dash, vals)
      else if drop (strspn arg ''-'') arg = ''help'' then (Finished 1, vals)
      else case find_option opts (drop (strspn arg ''-'') arg) of
        None \<Rightarrow> (Thrown (unknown_argument (drop (strspn arg ''-'') arg)), vals)
      | Some option \<Rightarrow>
          (case option_value option rest of
             Inl out \<Rightarrow> (out, vals)
           | Inr (v, used) \<Rightarrow>
               if vals (drop (strspn arg ''-'') arg) \<noteq> None
               then (Thrown (duplicate_cmdline (drop (strspn arg ''-'') arg)), vals)
               else parse_args opts (vals(drop (strspn arg ''-'') arg \<mapsto> v)) (drop used rest)))"
  by (auto simp: Let_def usage_empty store_emplace_def split: option.splits sum.splits)

declare parse_args.simps(2) [simp del]

text \<open>
  An invariant of the value store that every insertion of the loop preserves holds when
  the loop ends, however it ends.
\<close>

lemma parse_args_invariant:
  assumes "parse_args opts vals args = (out, vals')"
      and "I vals"
      and step: "\<And>arg key option v used m rest.
            arg \<in> set args \<Longrightarrow> strspn arg ''-'' \<noteq> 0 \<Longrightarrow> key = drop (strspn arg ''-'') arg \<Longrightarrow>
            key \<noteq> ''help'' \<Longrightarrow> find_option opts key = Some option \<Longrightarrow>
            option_value option rest = Inr (v, used) \<Longrightarrow> m key = None \<Longrightarrow> I m \<Longrightarrow>
            I (m(key \<mapsto> v))"
    shows "I vals'"
  using assms
proof (induction args arbitrary: vals rule: length_induct)
  case (1 args)
  show ?case
  proof (cases args)
    case Nil
    with "1.prems" show ?thesis by simp
  next
    case (Cons arg rest)
    let ?key = "drop (strspn arg ''-'') arg"
    show ?thesis
    proof (cases "strspn arg ''-'' = 0 \<or> ?key = ''help'' \<or> find_option opts ?key = None")
      case True
      with "1.prems"(1,2) Cons show ?thesis
        by (auto simp: parse_args_Cons split: if_splits)
    next
      case False
      then obtain option where opt: "find_option opts ?key = Some option" by auto
      show ?thesis
      proof (cases "option_value option rest")
        case (Inl o1)
        with False opt "1.prems"(1,2) Cons show ?thesis by (auto simp: parse_args_Cons)
      next
        case (Inr vu)
        obtain v used where vu: "vu = (v, used)" by (cases vu)
        show ?thesis
        proof (cases "vals ?key")
          case (Some a)
          with False opt Inr vu "1.prems"(1,2) Cons show ?thesis
            by (auto simp: parse_args_Cons)
        next
          case None
          with False opt Inr vu "1.prems"(1) Cons
          have run: "parse_args opts (vals(?key \<mapsto> v)) (drop used rest) = (out, vals')"
            by (simp add: parse_args_Cons)
          have I1: "I (vals(?key \<mapsto> v))"
          proof (rule "1.prems"(3) [of arg ?key option rest v used vals])
            show "arg \<in> set args" using Cons by simp
            show "strspn arg ''-'' \<noteq> 0" "?key \<noteq> ''help''" using False by simp_all
            show "option_value option rest = Inr (v, used)" using Inr vu by simp
          qed (use opt None "1.prems"(2) in simp_all)
          have len: "length (drop used rest) < length args" using Cons by simp
          have sub: "set (drop used rest) \<subseteq> set args"
            using Cons set_drop_subset [of used rest] by auto
          show ?thesis
          proof (rule "1.IH" [rule_format, OF len run I1])
            fix arg' key' option' v' used' m rest'
            assume "arg' \<in> set (drop used rest)" "strspn arg' ''-'' \<noteq> 0"
              "key' = drop (strspn arg' ''-'') arg'" "key' \<noteq> ''help''"
              "find_option opts key' = Some option'" "option_value option' rest' = Inr (v', used')"
              "m key' = None" "I m"
            with sub show "I (m(key' \<mapsto> v'))"
              by (intro "1.prems"(3) [of arg' key' option' rest' v' used' m]) auto
          qed
        qed
      qed
    qed
  qed
qed

lemma parse_args_keeps:
  assumes "parse_args opts vals args = (out, vals')" and "vals k = Some v"
  shows "vals' k = Some v"
  by (rule parse_args_invariant [OF assms(1), where I = "\<lambda>m. m k = Some v"])
     (use assms(2) in auto)

text \<open>How \<open>parse\<close> ends, read off its result.\<close>

lemma parse_FinishedD:
  assumes "parse st fs argv = Finished (code, report, st')"
  shows "\<exists>prog args out vals. argv = prog # args \<and> parse_try st fs args = (out, vals)
           \<and> st' = st\<lparr>program_name := prog, values' := vals\<rparr>
           \<and> (out = Finished code \<and> report = [] \<or> (\<exists>e. out = Thrown e \<and> code = - 1))"
proof (cases argv)
  case Nil
  with assms show ?thesis by (simp add: parse_def)
next
  case (Cons prog args)
  obtain out vals where pt: "parse_try st fs args = (out, vals)"
    by (cases "parse_try st fs args")
  with assms Cons show ?thesis
    by (cases out) (auto simp: parse_def usage_what)
qed

lemma parse_try_FinishedD:
  assumes "parse_try st fs args = (Finished code, vals')"
  shows "\<exists>vals. parse_args (options st) (values' st) args = (Finished code, vals)
           \<and> (if code = 0 then load_and_merge (options st) fs vals = Inr vals'
                  \<and> check_missing (options st) vals' = None
               else vals' = vals)"
proof -
  obtain out vals where pa: "parse_args (options st) (values' st) args = (out, vals)"
    by (cases "parse_args (options st) (values' st) args")
  with assms show ?thesis
    by (cases out) (auto simp: parse_try_def split: if_splits sum.splits option.splits)
qed

lemma parse_try_keeps:
  assumes "parse_try st fs args = (out, vals')" and "values' st k = Some v" and "k \<noteq> ''load''"
  shows "vals' k = Some v"
proof -
  obtain o1 vals where pa: "parse_args (options st) (values' st) args = (o1, vals)"
    by (cases "parse_args (options st) (values' st) args")
  have k1: "vals k = Some v" using parse_args_keeps [OF pa assms(2)] .
  show ?thesis
  proof (cases "o1 = Finished 0")
    case True
    show ?thesis
    proof (cases "load_and_merge (options st) fs vals")
      case (Inl e)
      with assms(1) pa True k1 show ?thesis by (simp add: parse_try_def)
    next
      case (Inr vals1)
      from load_and_merge_keeps [OF Inr k1 assms(3)] have "vals1 k = Some v" .
      with assms(1) pa True Inr show ?thesis
        by (auto simp: parse_try_def split: option.splits)
    qed
  next
    case False
    with assms(1) pa k1 show ?thesis
      by (cases o1) (auto simp: parse_try_def)
  qed
qed

lemma constructor_options_eq:
  "constructor_options = [(''help'', help_parameters), (''load'', load_parameters)]"
  by (simp add: constructor_options_def)

lemma demo_options_registered: "registered demo_options"
proof -
  have 1: "insert_option ''count'' 1 [] ''1'' constructor_options =
      Inr [(''count'', \<lparr>nargs = 1, default_value = ''1'', description = [], user_option = True\<rparr>),
           (''help'', help_parameters), (''load'', load_parameters)]"
    by (simp add: insert_option_def insert_option_impl_def constructor_options_eq)
  have 2: "insert_option ''verbose'' 0 [] ''0''
      [(''count'', \<lparr>nargs = 1, default_value = ''1'', description = [], user_option = True\<rparr>),
       (''help'', help_parameters), (''load'', load_parameters)] = Inr demo_options"
    by (simp add: insert_option_def insert_option_impl_def demo_options_def)
  show ?thesis
    by (rule inserted [OF inserted [OF constructed 1] 2])
qed

lemma try_emplace_sorted:
  assumes "sorted_wrt (<) (map fst opts)" and "try_emplace name p opts = (r, b)"
  shows "sorted_wrt (<) (map fst r) \<and> b = (name \<notin> fst ` set opts)
       \<and> set r = (if b then insert (name, p) (set opts) else set opts)"
  using assms
proof (induction opts arbitrary: r b)
  case Nil
  then show ?case by auto
next
  case (Cons kq opts)
  obtain k q where kq: "kq = (k, q)" by (cases kq)
  from Cons.prems(1) kq have srt: "sorted_wrt (<) (map fst opts)"
    and lt: "\<forall>x\<in>set opts. k < fst x" by auto
  show ?case
  proof (cases "name = k")
    case True
    with kq Cons.prems show ?thesis by auto
  next
    case False
    show ?thesis
    proof (cases "name < k")
      case True
      with lt have gt: "\<forall>x\<in>set opts. name < fst x" by force
      then have "name \<notin> fst ` set opts" by force
      with gt True False kq Cons.prems show ?thesis by auto
    next
      case nlt: False
      obtain r1 b1 where te: "try_emplace name p opts = (r1, b1)"
        by (cases "try_emplace name p opts")
      from Cons.IH [OF srt te] have r1: "sorted_wrt (<) (map fst r1)"
        and b1: "b1 = (name \<notin> fst ` set opts)"
        and s1: "set r1 = (if b1 then insert (name, p) (set opts) else set opts)" by simp_all
      from False nlt have "k < name" by simp
      with s1 lt have keys: "\<forall>x\<in>set r1. k < fst x" by (auto split: if_splits)
      from False nlt te kq Cons.prems(2) have r: "r = (k, q) # r1" and b: "b = b1" by auto
      from r b r1 b1 s1 keys False kq show ?thesis by auto
    qed
  qed
qed

lemma sorted_map_of:
  "sorted_wrt (<) (map fst (opts :: registry)) \<Longrightarrow> (map_of opts k = Some v) = ((k, v) \<in> set opts)"
  by (intro map_of_eq_Some_iff strict_sorted_imp_sorted) (simp add: strict_sorted_iff)

lemma registered_sorted: "registered opts \<Longrightarrow> sorted_wrt (<) (map fst opts)"
proof (induction rule: registered.induct)
  case constructed
  show ?case by (simp add: constructor_options_eq)
next
  case (inserted opts name n descr dflt opts')
  obtain r b where te: "try_emplace name
      \<lparr>nargs = n, default_value = dflt, description = descr, user_option = True\<rparr> opts = (r, b)"
    by (cases "try_emplace name
      \<lparr>nargs = n, default_value = dflt, description = descr, user_option = True\<rparr> opts")
  with inserted.hyps(2) have "opts' = r"
    by (simp add: insert_option_def insert_option_impl_def split: if_splits)
  with try_emplace_sorted [OF inserted.IH te] show ?case by simp
qed

lemma registered_insert_keeps:
  assumes "registered opts" and "insert_option name n descr dflt opts = Inr opts'"
    and "find_option opts k = Some q"
  shows "find_option opts' k = Some q"
proof -
  obtain r b where te: "try_emplace name
      \<lparr>nargs = n, default_value = dflt, description = descr, user_option = True\<rparr> opts = (r, b)"
    by (cases "try_emplace name
      \<lparr>nargs = n, default_value = dflt, description = descr, user_option = True\<rparr> opts")
  with assms(2) have r: "opts' = r" and b: "b"
    by (simp_all add: insert_option_def insert_option_impl_def split: if_splits)
  note srt = registered_sorted [OF assms(1)]
  from try_emplace_sorted [OF srt te] b
  have srt': "sorted_wrt (<) (map fst r)" and sub: "set opts \<subseteq> set r" by auto
  from assms(3) have "(k, q) \<in> set opts"
    by (simp add: find_option_def sorted_map_of [OF srt])
  with sub have "(k, q) \<in> set r" by auto
  then show ?thesis by (simp add: find_option_def sorted_map_of [OF srt'] r)
qed

lemma registered_builtins:
  "registered opts \<Longrightarrow>
     find_option opts ''help'' = Some help_parameters \<and> find_option opts ''load'' = Some load_parameters"
proof (induction rule: registered.induct)
  case constructed
  show ?case by (simp add: constructor_options_eq find_option_def)
next
  case (inserted opts name n descr dflt opts')
  from registered_insert_keeps [OF inserted.hyps(1,2)] inserted.IH show ?case by blast
qed

lemmas demo_eval = parse_def parse_try_def option_value_def load_and_merge_def
  find_option_def strspn_def to_int_def to_string_bool_def usage_def demo_options_def demo_def
  no_files_def help_parameters_def load_parameters_def load_def open_in_def getlines_def
  isspace_def nl_def substr_def parse_args_Cons Let_def


section \<open>Facts about \<^verbatim>\<open>split\<close>, the extraction and \<^verbatim>\<open>load\<close>\<close>

lemma fields_from_no_comma: "CHR '','' \<notin> set t \<Longrightarrow> fields_from cur t = [cur @ t]"
  by (induction t arbitrary: cur) auto

lemma fields_from_comma:
  "CHR '','' \<notin> set pre \<Longrightarrow> fields_from cur (pre @ CHR '','' # rest) = (cur @ pre) # fields_from [] rest"
  by (induction pre arbitrary: cur) auto

lemma fields_nonempty: "fields_from cur t \<noteq> []"
  by (induction t arbitrary: cur) auto

lemma find_from_None: "find_from s c k = None \<Longrightarrow> c \<notin> set (drop k s)"
  by (induction s c k rule: find_from.induct) (auto split: if_splits)

lemma find_from_Some:
  "find_from s c k = Some e \<Longrightarrow> s ! e = c \<and> c \<notin> set (take (e - k) (drop k s))"
  by (induction s c k arbitrary: e rule: find_from.induct) (auto split: if_splits)

lemma find_from_decompose:
  assumes "find_from s c k = Some e"
  shows "drop k s = take (e - k) (drop k s) @ c # drop (e + 1) s"
proof -
  from find_from_bounds [OF assms] have b: "k \<le> e" "e < length s" by simp_all
  from find_from_Some [OF assms] have c: "s ! e = c" by simp
  from b have "e - k < length (drop k s)" by simp
  from id_take_nth_drop [OF this] b c show ?thesis by simp
qed

lemma pick_Cons:
  "fs \<noteq> [] \<Longrightarrow> d \<noteq> 0 \<Longrightarrow> pick (f # fs) d = pick fs (d - 1)"
  by (auto simp: pick_def nat_diff_distrib' nth_Cons split: nat.splits)

lemma split_loop_fields:
  "fin = find_from s CHR '','' start \<Longrightarrow> start \<le> length s \<Longrightarrow>
     split_loop s pos start fin i = pick (comma_fields (drop start s)) (pos - i)"
proof (induction s pos start fin i rule: split_loop.induct)
  case (1 s pos start fin i)
  show ?case
  proof (cases fin)
    case None
    with "1.prems" have "CHR '','' \<notin> set (drop start s)" by (simp add: find_from_None)
    then have "comma_fields (drop start s) = [drop start s]" by (simp add: comma_fields_def fields_from_no_comma)
    with None show ?thesis by (simp add: substr_def pick_def)
  next
    case (Some e)
    with "1.prems" have ff: "find_from s CHR '','' start = Some e" by simp
    from find_from_bounds [OF ff] have b: "start \<le> e" "e < length s" by simp_all
    let ?pre = "take (e - start) (drop start s)"
    from find_from_Some [OF ff] have nc: "CHR '','' \<notin> set ?pre" by simp
    from find_from_decompose [OF ff] have dec: "drop start s = ?pre @ CHR '','' # drop (e + 1) s" .
    have fs: "comma_fields (drop start s) = ?pre # comma_fields (drop (e + 1) s)"
      by (subst dec) (simp add: comma_fields_def fields_from_comma [OF nc])
    show ?thesis
    proof (cases "i = pos")
      case True
      with Some fs show ?thesis by (simp add: substr_def pick_def)
    next
      case False
      have "split_loop s pos (e + 1) (find_from s CHR '','' (e + 1)) (i + 1)
          = pick (comma_fields (drop (e + 1) s)) (pos - (i + 1))"
        using b by (intro "1.IH" [OF Some False]) simp_all
      moreover have "pick (?pre # comma_fields (drop (e + 1) s)) (pos - i)
          = pick (comma_fields (drop (e + 1) s)) (pos - i - 1)"
        using False by (intro pick_Cons) (simp_all add: comma_fields_def fields_nonempty)
      ultimately show ?thesis using Some False fs by (simp add: algebra_simps)
    qed
  qed
qed

lemma split_fields: "split s pos = pick (comma_fields s) pos"
  using split_loop_fields [of "find_from s CHR '','' 0" s 0 pos 0] by (simp add: split_def)

lemma to_int_small:
  assumes "n < 2 ^ 31"
  shows "to_int n = int n"
proof -
  from assms have "int n < 2 ^ 31" by simp
  then show ?thesis
    by (simp add: to_int_def signed_of_nat signed_take_bit_int_eq_self)
qed

lemmas conv_eval = retrieve_def convert_def split_def substr_def to_int_def
  extract_int_def extract_integer_def extract_bool_def isdigit_def digit_value_def isspace_def
  find_option_def

lemma isdigit_plain: "isdigit c \<Longrightarrow> \<not> isspace c \<and> c \<noteq> CHR ''-'' \<and> c \<noteq> CHR ''+''"
  by (auto simp: isdigit_def isspace_def)

lemma extract_integer_prefix:
  assumes "digits \<noteq> []" and "\<forall>c\<in>set digits. isdigit c" and "\<not> isdigit x"
  shows "extract_integer (digits @ x # rest) = extract_integer digits"
proof -
  obtain d ds where ds: "digits = d # ds" using assms(1) by (cases digits) auto
  with assms(2) have d: "isdigit d" by simp
  have tw: "takeWhile isdigit (digits @ x # rest) = digits"
    using assms(2,3) by (simp add: takeWhile_tail)
  have tw2: "takeWhile isdigit digits = digits" using assms(2) by simp
  from isdigit_plain [OF d] tw tw2 ds show ?thesis
    by (simp add: extract_integer_def Let_def)
qed

lemma load_lines_keeps:
  "load_lines opts vals ls = Inr m \<Longrightarrow> vals k = Some v \<Longrightarrow> m k = Some v"
proof (induction ls arbitrary: vals)
  case Nil
  then show ?case by simp
next
  case (Cons raw rest)
  define line where "line = filter (\<lambda>c. \<not> isspace c) raw"
  show ?case
  proof (cases "line = [] \<or> hd line = CHR ''#''")
    case True
    with Cons.prems(1) have "load_lines opts vals rest = Inr m"
      by (simp add: Let_def line_def)
    from Cons.IH [OF this Cons.prems(2)] show ?thesis .
  next
    case False
    define key where "key = substr line 0 (find_from line CHR '':'' 0)"
    define val where
      "val = substr line (case find_from line CHR '':'' 0 of None \<Rightarrow> 0 | Some p \<Rightarrow> p + 1) None"
    from False Cons.prems(1) have "vals key = None"
      and run: "load_lines opts (vals(key \<mapsto> val)) rest = Inr m"
      by (auto simp: Let_def line_def key_def val_def split: if_splits)
    with Cons.prems(2) have "(vals(key \<mapsto> val)) k = Some v" by auto
    from Cons.IH [OF run this] show ?thesis .
  qed
qed

lemma load_lines_append:
  "load_lines opts vals (xs @ ys) =
     (case load_lines opts vals xs of Inl e \<Rightarrow> Inl e | Inr m \<Rightarrow> load_lines opts m ys)"
  by (induction xs arbitrary: vals) (auto simp: Let_def)

lemma find_from_absent: "c \<notin> set s \<Longrightarrow> find_from s c k = None"
  by (induction s c k rule: find_from.induct) auto

lemma load_lines_no_colon:
  assumes "filter (\<lambda>c. \<not> isspace c) raw = key" and "key \<noteq> []" and "hd key \<noteq> CHR ''#''"
      and "CHR '':'' \<notin> set key"
  shows "load_lines opts vals (raw # rest) =
           (if find_option opts key = None then Inl (unexpected_in_file key)
            else if vals key \<noteq> None then Inl (duplicate_in_file key)
            else load_lines opts (vals(key \<mapsto> key)) rest)"
  using assms by (simp add: Let_def find_from_absent substr_def)

section \<open>Facts about flags\<close>


lemma option_value_Inl:
  "option_value option rest = Inl out \<Longrightarrow>
     out = Undefined \<or> out = Thrown insufficient_values \<or> out = Thrown null_string"
  by (auto simp: option_value_def split: if_splits list.splits)








lemma insert_option_boolean_entry:
  assumes "registered opts" and "insert_option_boolean name action descr opts = Inr opts'"
  shows "registered opts'
       \<and> find_option opts' name =
           Some \<lparr>nargs = 0, default_value = (if action = store_true then ''0'' else ''1''),
                 description = descr, user_option = True\<rparr>"
proof -
  let ?p = "\<lparr>nargs = 0, default_value = (if action = store_true then ''0'' else ''1''),
                 description = descr, user_option = True\<rparr>"
  from assms(2) have ins: "insert_option name 0 descr (if action = store_true then ''0'' else ''1'') opts = Inr opts'"
    by (simp add: insert_option_boolean_def)
  obtain r b where te: "try_emplace name ?p opts = (r, b)" by (cases "try_emplace name ?p opts")
  with ins have r: "opts' = r" and b: "b"
    by (simp_all add: insert_option_def insert_option_impl_def split: if_splits)
  from try_emplace_sorted [OF registered_sorted [OF assms(1)] te] b
  have srt: "sorted_wrt (<) (map fst r)" and "(name, ?p) \<in> set r" by auto
  then have "find_option r name = Some ?p" by (simp add: find_option_def sorted_map_of)
  with r inserted [OF assms(1) ins] show ?thesis by simp
qed

section \<open>Facts about \<^verbatim>\<open>dump\<close> followed by \<^verbatim>\<open>load\<close>\<close>

lemma dump_entry_written:
  "dump_entry vals option =
     (case written_value vals option of None \<Rightarrow> [] | Some w \<Rightarrow> fst option @ '': '' @ w @ [nl])"
  by (simp add: dump_entry_def written_value_def Let_def split: option.splits)

lemma getlines_from_line:
  "nl \<notin> set l \<Longrightarrow> getlines_from cur (l @ nl # r) = (cur @ l) # getlines_from [] r"
  by (induction l arbitrary: cur) auto

lemma isspace_nl: "isspace nl"
  by (simp add: isspace_def nl_def)

lemma getlines_entries:
  assumes "\<forall>option\<in>set xs. \<forall>w. written_value vals option = Some w \<longrightarrow>
             nl \<notin> set (fst option) \<and> nl \<notin> set w"
  shows "getlines_from [] (concat (map (dump_entry vals) xs) @ r) =
           List.map_filter (\<lambda>option. map_option (\<lambda>w. fst option @ '': '' @ w)
                                        (written_value vals option)) xs
           @ getlines_from [] r"
  using assms
proof (induction xs)
  case Nil
  then show ?case by (simp add: List.map_filter_simps)
next
  case (Cons option xs)
  show ?case
  proof (cases "written_value vals option")
    case None
    with Cons show ?thesis by (simp add: dump_entry_written List.map_filter_simps)
  next
    case (Some w)
    with Cons.prems have "nl \<notin> set (fst option @ '': '' @ w)" by (auto simp: nl_def)
    from getlines_from_line [OF this, of "[]"] Some Cons show ?thesis
      by (simp add: dump_entry_written List.map_filter_simps)
  qed
qed

lemma find_from_first: "c \<notin> set pre \<Longrightarrow> find_from (pre @ c # rest) c 0 = Some (length pre)"
  by (induction pre) auto

lemma load_lines_blank: "load_lines opts acc ([] # ls) = load_lines opts acc ls"
  by simp

lemma load_lines_comment:
  "load_lines opts acc ((CHR ''#'' # l) # ls) = load_lines opts acc ls"
  by (simp add: isspace_def)

lemma load_line_entry:
  assumes "plain_name name" and "find_option opts name \<noteq> None" and "acc name = None"
  shows "load_lines opts acc ((name @ '': '' @ w) # ls) = load_lines opts (acc(name \<mapsto> strip w)) ls"
proof -
  from assms(1) have nw: "filter (\<lambda>c. \<not> isspace c) name = name"
    and nc: "CHR '':'' \<notin> set name" and nh: "name = [] \<or> hd name \<noteq> CHR ''#''"
    by (auto simp: plain_name_def)
  have line: "filter (\<lambda>c. \<not> isspace c) (name @ '': '' @ w) = name @ CHR '':'' # strip w"
    using nw by (simp add: strip_def isspace_def)
  have hd: "hd (name @ CHR '':'' # strip w) \<noteq> CHR ''#''"
    using nh by (cases name) auto
  from assms(2) obtain q where q: "find_option opts name = Some q" by auto
  show ?thesis
    unfolding load_lines.simps line Let_def find_from_first [OF nc]
    using hd q assms(3) by (simp add: substr_def)
qed

lemma load_dumped_entries:
  assumes "distinct (map fst xs)" and "\<forall>option\<in>set xs. find_option opts (fst option) \<noteq> None"
      and "\<forall>option\<in>set xs. plain_name (fst option) \<and> acc (fst option) = None"
  shows "load_lines opts acc
           (List.map_filter (\<lambda>option. map_option (\<lambda>w. fst option @ '': '' @ w)
                                         (written_value vals option)) xs @ ls)
         = load_lines opts (reloaded vals xs acc) ls"
  using assms
proof (induction xs arbitrary: acc)
  case Nil
  then show ?case by (simp add: List.map_filter_simps reloaded_def)
next
  case (Cons option xs)
  obtain name p where np: "option = (name, p)" by (cases option)
  from Cons.prems np have d: "distinct (map fst xs)" and fresh: "name \<notin> fst ` set xs"
    and reg: "\<forall>option\<in>set xs. find_option opts (fst option) \<noteq> None"
    and here: "plain_name name" "acc name = None" "find_option opts name \<noteq> None"
    and rest: "\<forall>option\<in>set xs. plain_name (fst option) \<and> acc (fst option) = None"
    by auto
  from fresh have mo: "map_of xs name = None" by (simp add: map_of_eq_None_iff)
  show ?case
  proof (cases "written_value vals (name, p)")
    case None
    have "reloaded vals ((name, p) # xs) acc = reloaded vals xs acc"
      using None mo by (auto simp: reloaded_def fun_eq_iff)
    with Cons.IH [OF d reg rest] None np show ?thesis
      by (simp add: List.map_filter_simps)
  next
    case (Some w)
    from rest fresh
    have rest': "\<forall>option\<in>set xs. plain_name (fst option)
                   \<and> (acc(name \<mapsto> strip w)) (fst option) = None"
      by auto
    have eq: "reloaded vals xs (acc(name \<mapsto> strip w)) = reloaded vals ((name, p) # xs) acc"
      using Some mo by (auto simp: reloaded_def fun_eq_iff split: option.splits)
    let ?F = "\<lambda>option. map_option (\<lambda>w. fst option @ '': '' @ w) (written_value vals option)"
    have "load_lines opts acc (List.map_filter ?F ((name, p) # xs) @ ls)
        = load_lines opts acc ((name @ '': '' @ w) # (List.map_filter ?F xs @ ls))"
      using Some by (simp add: List.map_filter_simps del: load_lines.simps(2))
    also have "\<dots> = load_lines opts (acc(name \<mapsto> strip w)) (List.map_filter ?F xs @ ls)"
      by (rule load_line_entry [where acc = acc and name = name and opts = opts,
            OF here(1,3,2)])
    also have "\<dots> = load_lines opts (reloaded vals xs (acc(name \<mapsto> strip w))) ls"
      by (rule Cons.IH [OF d reg rest'])
    finally show ?thesis unfolding np eq .
  qed
qed

lemma getlines_header:
  assumes "nl \<notin> set mbstr"
  shows "\<exists>l. getlines_from [] (dump_header mbstr @ r) = [] # (CHR ''#'' # l) # [] # getlines_from [] r"
proof (cases "length mbstr \<noteq> 0")
  case True
  have "nl \<notin> set (''# Created automaticaly by optparse on '' @ mbstr)"
    using assms by (simp add: nl_def)
  from getlines_from_line [OF this, of "[]" "nl # r"] True show ?thesis
    by (simp add: dump_header_def)
next
  case False
  have "nl \<notin> set ''# Created automaticaly by optparse''" by (simp add: nl_def)
  from getlines_from_line [OF this, of "[]" "nl # r"] False show ?thesis
    by (simp add: dump_header_def)
qed

section \<open>Facts about the outcome of \<^verbatim>\<open>parse\<close>\<close>

lemma option_value_defined:
  assumes "to_int (nargs option) \<noteq> 2147483647"
  shows "option_value option rest \<noteq> Inl Undefined"
  using assms by (auto simp: option_value_def split: list.splits)

lemma parse_args_defined:
  assumes "\<forall>option\<in>set opts. to_int (nargs (snd option)) \<noteq> 2147483647"
  shows "fst (parse_args opts vals args) \<noteq> Undefined"
proof (induction args arbitrary: vals rule: length_induct)
  case (1 args)
  show ?case
  proof (cases args)
    case Nil
    then show ?thesis by simp
  next
    case (Cons arg rest)
    let ?key = "drop (strspn arg ''-'') arg"
    show ?thesis
    proof (cases "find_option opts ?key")
      case None
      with Cons show ?thesis by (simp add: parse_args_Cons)
    next
      case (Some option)
      then have "(?key, option) \<in> set opts" by (simp add: find_option_def map_of_SomeD)
      with assms have "to_int (nargs option) \<noteq> 2147483647" by force
      note d = option_value_defined [OF this, of rest]
      show ?thesis
      proof (cases "option_value option rest")
        case (Inl out)
        with d option_value_Inl [OF Inl] Some Cons show ?thesis
          by (auto simp: parse_args_Cons)
      next
        case (Inr vu)
        obtain v used where vu: "vu = (v, used)" by (cases vu)
        have "length (drop used rest) < length args" using Cons by simp
        from "1.IH" [rule_format, OF this] Some Inr vu Cons show ?thesis
          by (simp add: parse_args_Cons)
      qed
    qed
  qed
qed

lemma parse_undefined_iff:
  "(parse st fs (prog # args) = Undefined)
     = (fst (parse_args (options st) (values' st) args) = Undefined)"
proof -
  obtain out vals0 where pa: "parse_args (options st) (values' st) args = (out, vals0)"
    by (cases "parse_args (options st) (values' st) args")
  then show ?thesis
    by (cases out) (auto simp: parse_def parse_try_def split: sum.splits option.splits)
qed

lemma parse_never_throws: "parse st fs (prog # args) \<noteq> Thrown x"
proof -
  obtain out vals where pt: "parse_try st fs args = (out, vals)"
    by (cases "parse_try st fs args")
  then show ?thesis by (cases out) (simp_all add: parse_def)
qed

lemma parse_defined:
  assumes "\<forall>option\<in>set (options st). to_int (nargs (snd option)) \<noteq> 2147483647"
  shows "\<exists>code report st'. parse st fs (prog # args) = Finished (code, report, st')"
proof -
  from parse_args_defined [OF assms, of "values' st" args]
  have "parse st fs (prog # args) \<noteq> Undefined" by (simp add: parse_undefined_iff)
  with parse_never_throws [of st fs prog args] show ?thesis
    by (cases "parse st fs (prog # args)") auto
qed

lemma parse_try_block:
  "(parse_args (options st) (values' st) args = (Thrown e, vals) \<longrightarrow>
      parse st fs (prog # args) =
        Finished (- 1, ''terminate called after throwing an exception'' @ [nl]
                     @ ''  what: '' @ what e @ [nl],
              st\<lparr>program_name := prog, values' := vals\<rparr>))
   \<and> (parse_args (options st) (values' st) args = (Finished 0, vals)
        \<and> load_and_merge (options st) fs vals = Inl e \<longrightarrow>
      parse st fs (prog # args) =
        Finished (- 1, ''terminate called after throwing an exception'' @ [nl]
                     @ ''  what: '' @ what e @ [nl],
              st\<lparr>program_name := prog, values' := vals\<rparr>))
   \<and> (parse_args (options st) (values' st) args = (Finished 0, vals)
        \<and> load_and_merge (options st) fs vals = Inr merged
        \<and> check_missing (options st) merged = Some e \<longrightarrow>
      parse st fs (prog # args) =
        Finished (- 1, ''terminate called after throwing an exception'' @ [nl]
                     @ ''  what: '' @ what e @ [nl],
              st\<lparr>program_name := prog, values' := merged\<rparr>))"
  by (simp add: parse_def parse_try_def usage_what)

lemma parse_args_origin:
  assumes "parse_args opts vals args = (out, vals')" and "vals' k = Some v"
  shows "vals k = Some v
       \<or> (\<exists>arg\<in>set args. strspn arg ''-'' \<noteq> 0 \<and> drop (strspn arg ''-'') arg = k)"
proof -
  have "\<forall>x. vals' k = Some x \<longrightarrow>
          vals k = Some x
        \<or> (\<exists>arg\<in>set args. strspn arg ''-'' \<noteq> 0 \<and> drop (strspn arg ''-'') arg = k)"
    by (rule parse_args_invariant [OF assms(1), where
          I = "\<lambda>m. \<forall>x. m k = Some x \<longrightarrow>
                 vals k = Some x
               \<or> (\<exists>arg\<in>set args. strspn arg ''-'' \<noteq> 0 \<and> drop (strspn arg ''-'') arg = k)"])
       auto
  with assms(2) show ?thesis by blast
qed

lemma parse_try_origin:
  assumes "parse_args (options st) (values' st) args = (o1, v1)"
      and "parse_try st fs args = (out, vals')" and "vals' k = Some v"
  shows "v1 k = Some v
       \<or> (\<exists>pathname loaded. o1 = Finished 0 \<and> v1 ''load'' = Some pathname
             \<and> load (options st) fs pathname = Inr loaded \<and> loaded k = Some v)"
proof (cases "o1 = Finished 0")
  case True
  show ?thesis
  proof (cases "load_and_merge (options st) fs v1")
    case (Inl e)
    with assms True show ?thesis by (simp add: parse_try_def)
  next
    case (Inr merged)
    with assms(1,2) True have "vals' = merged"
      by (auto simp: parse_try_def split: option.splits)
    with assms(3) have m: "merged k = Some v" by simp
    show ?thesis
    proof (cases "v1 ''load''")
      case None
      with Inr m show ?thesis by (simp add: load_and_merge_def)
    next
      case (Some pathname)
      with Inr obtain loaded where l: "load (options st) fs pathname = Inr loaded"
        and mg: "merged = (loaded ++ v1)(''load'' := None)"
        by (auto simp: load_and_merge_def split: sum.splits)
      from m mg have "v1 k = Some v \<or> loaded k = Some v"
        by (auto simp: map_add_def split: if_splits option.splits)
      with True Some l show ?thesis by blast
    qed
  qed
next
  case False
  with assms show ?thesis by (cases o1) (auto simp: parse_try_def)
qed

section \<open>The claims\<close>

text \<open>
  C10. After a \<^verbatim>\<open>parse\<close> call that returns 0 the value store has no entry for the key
  \<^verbatim>\<open>load\<close>, and since the built-in option \<^verbatim>\<open>load\<close> of every registry has an empty
  default, \<^verbatim>\<open>retrieve\<close> of \<^verbatim>\<open>load\<close> then throws the "no argument has been passed" error
  (kind MissingArgument), whatever the target type and the field index.
\<close>

theorem load_absent_after_parse:
  assumes "registered (options st)" and "parse st fs argv = Finished (0, report, st')"
  shows "values' st' ''load'' = None
       \<and> retrieve tname extract st' ''load'' n = Inl (no_argument_passed ''load'')
       \<and> kind (no_argument_passed ''load'') = MissingArgument"
proof -
  from parse_FinishedD [OF assms(2)] obtain prog args out vals where
    pt: "parse_try st fs args = (out, vals)"
    and st': "st' = st\<lparr>program_name := prog, values' := vals\<rparr>"
    and out: "out = Finished 0" by auto
  from parse_try_FinishedD [OF pt [unfolded out]] obtain vals0 where
    "load_and_merge (options st) fs vals0 = Inr vals" by auto
  from load_and_merge_erases [OF this] have none: "vals ''load'' = None" .
  from registered_builtins [OF assms(1)] have "find_option (options st) ''load'' = Some load_parameters"
    by simp
  with none st' show ?thesis
    by (simp add: retrieve_def load_parameters_def)
qed

theorem load_absent_after_parse_witness:
  "registered (options demo)
   \<and> parse demo no_files [''prog'', ''--count'', ''5''] =
       Finished (0, [], demo\<lparr>program_name := ''prog'', values' := [''count'' \<mapsto> ''5'']\<rparr>)
   \<and> retrieve ''i'' extract_int (demo\<lparr>program_name := ''prog'', values' := [''count'' \<mapsto> ''5'']\<rparr>)
        ''load'' 0 = Inl (no_argument_passed ''load'')"
proof -
  have r: "registered (options demo)" by (simp add: demo_def demo_options_registered)
  have p: "parse demo no_files [''prog'', ''--count'', ''5''] =
       Finished (0, [], demo\<lparr>program_name := ''prog'', values' := [''count'' \<mapsto> ''5'']\<rparr>)"
    by (simp add: demo_eval)
  from load_absent_after_parse [OF r p] r p show ?thesis by blast
qed

text \<open>
  C1, as the code has it. For an \<^verbatim>\<open>argv\<close> that holds at least the program name, every
  \<^verbatim>\<open>throw\<close> inside \<^verbatim>\<open>parse\<close> happens in its \<^verbatim>\<open>try\<close> block: in the loop over the tokens (no
  leading dash, unknown option, too few values, duplicate option, the null pointer after
  the last token read as a string), in loading the configuration file, or in the check
  for missing arguments. Whichever step throws the error \<open>e\<close>, \<^verbatim>\<open>parse\<close> returns \<open>-1\<close> after
  \<^verbatim>\<open>usage\<close> has written the report with the message of \<open>e\<close>, and the value store is as
  the throwing step left it. No exception leaves \<^verbatim>\<open>parse\<close>, and \<^verbatim>\<open>parse\<close> returns a value
  unless the cast to \<^verbatim>\<open>int\<close> of an arity of the registry is \<^verbatim>\<open>INT_MAX\<close> (then
  \<^verbatim>\<open>(int) nargs + 1\<close> overflows). For the empty \<^verbatim>\<open>argv\<close> the statement before the \<^verbatim>\<open>try\<close>
  block, \<^verbatim>\<open>program_name = std::string(argv[0])\<close>, throws, and its exception leaves \<^verbatim>\<open>parse\<close>.
\<close>

theorem parse_catches_every_error:
  "(parse_args (options st) (values' st) args = (Thrown e, vals) \<longrightarrow>
      parse st fs (prog # args) =
        Finished (- 1, ''terminate called after throwing an exception'' @ [nl]
                     @ ''  what: '' @ what e @ [nl],
              st\<lparr>program_name := prog, values' := vals\<rparr>))
   \<and> (parse_args (options st) (values' st) args = (Finished 0, vals)
        \<and> load_and_merge (options st) fs vals = Inl e \<longrightarrow>
      parse st fs (prog # args) =
        Finished (- 1, ''terminate called after throwing an exception'' @ [nl]
                     @ ''  what: '' @ what e @ [nl],
              st\<lparr>program_name := prog, values' := vals\<rparr>))
   \<and> (parse_args (options st) (values' st) args = (Finished 0, vals)
        \<and> load_and_merge (options st) fs vals = Inr merged
        \<and> check_missing (options st) merged = Some e \<longrightarrow>
      parse st fs (prog # args) =
        Finished (- 1, ''terminate called after throwing an exception'' @ [nl]
                     @ ''  what: '' @ what e @ [nl],
              st\<lparr>program_name := prog, values' := merged\<rparr>))
   \<and> (\<forall>x. parse st fs (prog # args) \<noteq> Thrown x)
   \<and> ((\<forall>option\<in>set (options st). to_int (nargs (snd option)) \<noteq> 2147483647) \<longrightarrow>
        (\<exists>code report st'. parse st fs (prog # args) = Finished (code, report, st')))
   \<and> parse st fs [] = Thrown null_string"
proof -
  have "parse st fs [] = Thrown null_string" by (simp add: parse_def)
  with parse_try_block [of st args e vals fs prog merged] parse_defined [of st fs prog args]
    parse_never_throws [of st fs prog args]
  show ?thesis by blast
qed

theorem parse_catches_every_error_witness:
  "parse demo no_files [''prog'', ''count''] =
      Finished (- 1, ''terminate called after throwing an exception'' @ [nl]
                   @ ''  what: '' @ what no_leading_dash @ [nl],
            demo\<lparr>program_name := ''prog'', values' := Map.empty\<rparr>)
   \<and> parse demo no_files [''prog'', ''--load'', ''cfg''] =
      Finished (- 1, ''terminate called after throwing an exception'' @ [nl]
                   @ ''  what: '' @ what (open_failed ''cfg'') @ [nl],
            demo\<lparr>program_name := ''prog'', values' := [''load'' \<mapsto> ''cfg'']\<rparr>)
   \<and> parse needy no_files [''prog''] =
      Finished (- 1, ''terminate called after throwing an exception'' @ [nl]
                   @ ''  what: '' @ what (missing_argument ''out'') @ [nl],
            needy\<lparr>program_name := ''prog'', values' := Map.empty\<rparr>)"
proof -
  have a: "parse_args (options demo) (values' demo) [''count''] = (Thrown no_leading_dash, Map.empty)"
    by (simp add: demo_eval)
  have b: "parse_args (options demo) (values' demo) [''--load'', ''cfg'']
             = (Finished 0, [''load'' \<mapsto> ''cfg''])
           \<and> load_and_merge (options demo) no_files [''load'' \<mapsto> ''cfg''] = Inl (open_failed ''cfg'')"
    by (simp add: demo_eval)
  have c: "parse_args (options needy) (values' needy) [] = (Finished 0, Map.empty)
           \<and> load_and_merge (options needy) no_files Map.empty = Inr Map.empty
           \<and> check_missing (options needy) Map.empty = Some (missing_argument ''out'')"
    by (simp add: demo_eval needy_def)
  note t = parse_catches_every_error [where fs = no_files and prog = "''prog''"]
  from t [where st = demo and args = "[''count'']" and e = no_leading_dash and vals = Map.empty,
          THEN conjunct1, rule_format, OF a]
       t [where st = demo and args = "[''--load'', ''cfg'']" and e = "open_failed ''cfg''"
            and vals = "[''load'' \<mapsto> ''cfg'']",
          THEN conjunct2, THEN conjunct1, rule_format, OF b]
       t [where st = needy and args = "[]" and e = "missing_argument ''out''"
            and vals = Map.empty and merged = Map.empty,
          THEN conjunct2, THEN conjunct2, THEN conjunct1, rule_format, OF c]
  show ?thesis by blast
qed

text \<open>
  The claim C1 itself fails for the empty \<^verbatim>\<open>argv\<close>: the exception of
  \<^verbatim>\<open>std::string(argv[0])\<close>, thrown before the \<^verbatim>\<open>try\<close> block is entered, leaves \<^verbatim>\<open>parse\<close>.
\<close>

theorem parse_empty_argv_throws:
  "parse demo no_files [] = Thrown null_string"
  by (simp add: parse_def)

text \<open>
  C2. When the token loop has stored both \<^verbatim>\<open>load\<close> and a value \<open>v\<close> for the option \<open>name\<close>,
  and the configuration file also has an entry for \<open>name\<close>, the value store after
  \<^verbatim>\<open>parse\<close> still holds \<open>v\<close> for \<open>name\<close>, and it has no entry for \<^verbatim>\<open>load\<close>: the store is
  the loaded map overridden by the command line's entries, with \<^verbatim>\<open>load\<close> erased.
\<close>

theorem command_line_wins:
  assumes "parse_args (options st) (values' st) args = (Finished 0, vals)"
      and "vals ''load'' = Some pathname"
      and "load (options st) fs pathname = Inr loaded"
      and "vals name = Some v" and "loaded name = Some w" and "name \<noteq> ''load''"
    shows "\<exists>code report st'. parse st fs (prog # args) = Finished (code, report, st')
             \<and> values' st' name = Some v \<and> values' st' ''load'' = None
             \<and> values' st' = (loaded ++ vals)(''load'' := None)"
proof -
  have lm: "load_and_merge (options st) fs vals = Inr ((loaded ++ vals)(''load'' := None))"
    using assms(2,3) by (simp add: load_and_merge_def)
  have v: "((loaded ++ vals)(''load'' := None)) name = Some v"
    using assms(4,6) by (simp add: map_add_def)
  show ?thesis
  proof (cases "check_missing (options st) ((loaded ++ vals)(''load'' := None))")
    case None
    with assms(1) lm v show ?thesis by (simp add: parse_def parse_try_def)
  next
    case (Some e)
    with assms(1) lm v show ?thesis by (simp add: parse_def parse_try_def)
  qed
qed

theorem command_line_wins_witness:
  "parse_args (options demo) (values' demo) [''--count'', ''5'', ''--load'', ''cfg'']
     = (Finished 0, [''count'' \<mapsto> ''5'', ''load'' \<mapsto> ''cfg''])
   \<and> load (options demo) cfg_files ''cfg'' = Inr [''count'' \<mapsto> ''3'', ''verbose'' \<mapsto> ''1'']
   \<and> (\<exists>code report st'.
         parse demo cfg_files [''prog'', ''--count'', ''5'', ''--load'', ''cfg'']
           = Finished (code, report, st')
         \<and> values' st' ''count'' = Some ''5'' \<and> values' st' ''load'' = None)"
proof -
  have a: "parse_args (options demo) (values' demo) [''--count'', ''5'', ''--load'', ''cfg'']
           = (Finished 0, [''count'' \<mapsto> ''5'', ''load'' \<mapsto> ''cfg''])"
    by (simp add: demo_eval)
  have b: "[''count'' \<mapsto> ''5'', ''load'' \<mapsto> ''cfg''] ''load'' = Some ''cfg''" by simp
  have c: "load (options demo) cfg_files ''cfg'' = Inr [''count'' \<mapsto> ''3'', ''verbose'' \<mapsto> ''1'']"
    by (simp add: demo_eval cfg_files_def)
  have d: "[''count'' \<mapsto> ''5'', ''load'' \<mapsto> ''cfg''] ''count'' = Some ''5''" by simp
  have e: "[''count'' \<mapsto> ''3'', ''verbose'' \<mapsto> ''1''] ''count'' = Some ''3''" by simp
  have f: "''count'' \<noteq> ''load''" by simp
  from command_line_wins [OF a b c d e f, of "''prog''"] a c show ?thesis by blast
qed

text \<open>
  C6, as the code has it. \<^verbatim>\<open>parse\<close> does not clear the value store, it starts from the
  store the instance holds: every entry that is in the store before a call (the key
  \<^verbatim>\<open>load\<close> apart, which a successful merge erases) is in it with the same value after
  the call. And every entry of the store after a call was in it before the call, or is
  stored under a key that a token of this call's \<^verbatim>\<open>argv\<close> names, or was taken from the
  configuration file that this call loaded.
\<close>

theorem parse_keeps_entries:
  assumes "parse st fs argv = Finished (code, report, st')"
  shows "(values' st name = Some v \<and> name \<noteq> ''load'' \<longrightarrow> values' st' name = Some v)
       \<and> (values' st' name = Some v \<longrightarrow>
             values' st name = Some v
           \<or> (\<exists>arg\<in>set (tl argv). strspn arg ''-'' \<noteq> 0 \<and> drop (strspn arg ''-'') arg = name)
           \<or> (\<exists>vals pathname loaded.
                 parse_args (options st) (values' st) (tl argv) = (Finished 0, vals)
                 \<and> vals ''load'' = Some pathname
                 \<and> load (options st) fs pathname = Inr loaded \<and> loaded name = Some v))"
proof -
  from parse_FinishedD [OF assms] obtain prog args out vals where
    argv: "argv = prog # args" and pt: "parse_try st fs args = (out, vals)"
    and st': "st' = st\<lparr>program_name := prog, values' := vals\<rparr>"
    by blast
  obtain o1 v1 where pa: "parse_args (options st) (values' st) args = (o1, v1)"
    by (cases "parse_args (options st) (values' st) args")
  have keep: "values' st' name = Some v" if "values' st name = Some v" "name \<noteq> ''load''"
    using parse_try_keeps [OF pt that] st' by simp
  have origin: "values' st name = Some v
           \<or> (\<exists>arg\<in>set (tl argv). strspn arg ''-'' \<noteq> 0 \<and> drop (strspn arg ''-'') arg = name)
           \<or> (\<exists>vals pathname loaded.
                 parse_args (options st) (values' st) (tl argv) = (Finished 0, vals)
                 \<and> vals ''load'' = Some pathname
                 \<and> load (options st) fs pathname = Inr loaded \<and> loaded name = Some v)"
    if "values' st' name = Some v"
  proof -
    from that st' have "vals name = Some v" by simp
    from parse_try_origin [OF pa pt this]
    consider "v1 name = Some v"
      | pathname loaded where "o1 = Finished 0" "v1 ''load'' = Some pathname"
          "load (options st) fs pathname = Inr loaded" "loaded name = Some v"
      by blast
    then show ?thesis
    proof cases
      case 1
      from parse_args_origin [OF pa 1] show ?thesis unfolding argv list.sel by blast
    next
      case 2
      with pa show ?thesis unfolding argv list.sel by blast
    qed
  qed
  from keep origin show ?thesis by blast
qed

theorem parse_keeps_entries_witness:
  "parse seen5 no_files [''prog'', ''--verbose''] =
     Finished (0, [], seen5\<lparr>values' := [''count'' \<mapsto> ''5'', ''verbose'' \<mapsto> ''1'']\<rparr>)
   \<and> values' seen5 ''count'' = Some ''5''
   \<and> values' (seen5\<lparr>values' := [''count'' \<mapsto> ''5'', ''verbose'' \<mapsto> ''1'']\<rparr>) ''count'' = Some ''5''
   \<and> values' (seen5\<lparr>values' := [''count'' \<mapsto> ''5'', ''verbose'' \<mapsto> ''1'']\<rparr>) ''verbose'' = Some ''1''
   \<and> (\<exists>arg\<in>set [''--verbose''].
         strspn arg ''-'' \<noteq> 0 \<and> drop (strspn arg ''-'') arg = ''verbose'')"
proof -
  have p: "parse seen5 no_files [''prog'', ''--verbose''] =
     Finished (0, [], seen5\<lparr>values' := [''count'' \<mapsto> ''5'', ''verbose'' \<mapsto> ''1'']\<rparr>)"
    by (simp add: demo_eval seen5_def)
  have v: "values' seen5 ''count'' = Some ''5'' \<and> ''count'' \<noteq> ''load''"
    by (simp add: seen5_def)
  have w: "values' (seen5\<lparr>values' := [''count'' \<mapsto> ''5'', ''verbose'' \<mapsto> ''1'']\<rparr>) ''verbose''
      = Some ''1''" by simp
  have n: "values' seen5 ''verbose'' \<noteq> Some ''1''" by (simp add: seen5_def)
  have l: "\<not> (\<exists>vals pathname loaded.
      parse_args (options seen5) (values' seen5) (tl [''prog'', ''--verbose'']) = (Finished 0, vals)
      \<and> vals ''load'' = Some pathname
      \<and> load (options seen5) no_files pathname = Inr loaded \<and> loaded ''verbose'' = Some ''1'')"
    by (simp add: demo_eval seen5_def)
  from parse_keeps_entries [OF p, of "''count''" "''5''", THEN conjunct1, rule_format, OF v]
  have 1: "values' (seen5\<lparr>values' := [''count'' \<mapsto> ''5'', ''verbose'' \<mapsto> ''1'']\<rparr>) ''count''
      = Some ''5''" .
  from parse_keeps_entries [OF p, of "''verbose''" "''1''", THEN conjunct2, rule_format, OF w] n l
  have "\<exists>arg\<in>set (tl [''prog'', ''--verbose'']).
         strspn arg ''-'' \<noteq> 0 \<and> drop (strspn arg ''-'') arg = ''verbose''"
    by blast
  then have 2: "\<exists>arg\<in>set [''--verbose''].
         strspn arg ''-'' \<noteq> 0 \<and> drop (strspn arg ''-'') arg = ''verbose''"
    by simp
  from p v w 1 2 show ?thesis by blast
qed

text \<open>
  The claim C6 itself fails: after a first call has stored \<^verbatim>\<open>count\<close>, a second call
  on the same instance with no option at all returns 0 with \<^verbatim>\<open>count\<close> still stored, and a
  second call with the same tokens finds the option duplicated and returns \<open>-1\<close>.
\<close>

theorem parse_store_not_fresh:
  "parse demo no_files [''prog'', ''--count'', ''5''] = Finished (0, [], seen5)
   \<and> parse seen5 no_files [''prog''] = Finished (0, [], seen5)
   \<and> values' seen5 ''count'' = Some ''5''
   \<and> parse seen5 no_files [''prog'', ''--count'', ''5'']
       = Finished (- 1, fst (usage (what (duplicate_cmdline ''count''))), seen5)"
  by (simp add: demo_eval seen5_def)

text \<open>
  C3, as the code has it. \<^verbatim>\<open>split\<close> has no out-of-range case: its loop returns a field
  only while a further comma is found, and when the commas run out before the index is
  reached it returns the text after the last comma. So for a stored raw value with
  exactly \<open>k\<close> comma-separated fields and a field index \<open>n \<ge> k\<close>, \<^verbatim>\<open>retrieve\<close> converts
  the last field, exactly as it does for the index \<open>k - 1\<close>, and fails only if that
  conversion fails.
\<close>

theorem retrieve_index_beyond_last_field:
  assumes "values' st name = Some raw" and "length (comma_fields raw) = k"
      and "k \<le> n" and "n < 2 ^ 31"
    shows "retrieve tname extract st name n = convert tname extract (last (comma_fields raw))
         \<and> retrieve tname extract st name n = retrieve tname extract st name (k - 1)"
proof -
  have ne: "comma_fields raw \<noteq> []" by (simp add: comma_fields_def fields_nonempty)
  with assms(2) have k: "0 < k" by auto
  from assms(3,4) have "k - 1 < 2 ^ 31" by simp
  then have ik: "to_int (k - 1) = int (k - 1)" by (rule to_int_small)
  have nk: "nat (int (k - 1)) = k - 1" by simp
  have lk: "last (comma_fields raw) = comma_fields raw ! (k - 1)"
    using ne assms(2) by (simp add: last_conv_nth)
  have "split raw (to_int n) = last (comma_fields raw)"
    using assms(2,3) by (simp add: split_fields pick_def to_int_small [OF assms(4)])
  moreover have "pick (comma_fields raw) (int (k - 1)) = last (comma_fields raw)"
    unfolding pick_def nk lk using k assms(2) by simp
  then have "split raw (to_int (k - 1)) = last (comma_fields raw)"
    unfolding split_fields ik .
  ultimately show ?thesis using assms(1) by (simp add: retrieve_def)
qed

theorem retrieve_index_beyond_last_field_witness:
  "values' seen5 ''count'' = Some ''5'' \<and> length (comma_fields ''5'') = 1
   \<and> retrieve ''i'' extract_int seen5 ''count'' 3 = convert ''i'' extract_int (last (comma_fields ''5''))
   \<and> retrieve ''i'' extract_int seen5 ''count'' 3 = retrieve ''i'' extract_int seen5 ''count'' (1 - 1)"
proof -
  have a: "values' seen5 ''count'' = Some ''5''" by (simp add: seen5_def)
  have b: "length (comma_fields ''5'') = 1" by (simp add: comma_fields_def)
  have c: "(1::nat) \<le> 3" by simp
  have d: "(3::nat) < 2 ^ 31" by simp
  from retrieve_index_beyond_last_field [OF a b c d] a b show ?thesis by blast
qed

text \<open>
  The claim C3 itself fails: \<^verbatim>\<open>count\<close> has arity 1 and the stored value \<^verbatim>\<open>5\<close> has one
  field, yet the field index 1 yields the value 5 and no error.
\<close>

theorem retrieve_index_out_of_range_returns:
  "find_option (options seen5) ''count''
     = Some \<lparr>nargs = 1, default_value = ''1'', description = [], user_option = True\<rparr>
   \<and> values' seen5 ''count'' = Some ''5''
   \<and> retrieve ''i'' extract_int seen5 ''count'' 1 = Inr 5"
  by (simp add: seen5_def demo_def demo_options_def conv_eval)

text \<open>
  C4, as the code has it. For a stored field as for a defaulted one (the field that
  \<^verbatim>\<open>split\<close> selects, or for a flag the text of the default's polarity), \<^verbatim>\<open>retrieve\<close> throws
  its conversion error exactly when the extraction from the stream fails on the field,
  and returns exactly the value that the extraction yields otherwise; it never looks at
  what the extraction left in the stream. The extraction of an \<^verbatim>\<open>int\<close> reads the leading digits only, so a field made
  of digits followed by a character that is not a digit converts like the digits alone.
\<close>

theorem retrieve_fails_iff_extraction_fails:
  "(values' st name = Some raw \<longrightarrow>
      ((\<exists>e. retrieve tname ex st name n = Inl e \<and> kind e = ConversionError)
         = (ex (split raw (to_int n)) = None))
      \<and> (\<forall>v. (retrieve tname ex st name n = Inr v) = (ex (split raw (to_int n)) = Some v)))
   \<and> (values' st name = None \<and> find_option (options st) name = Some p \<and> default_value p \<noteq> [] \<longrightarrow>
      ((\<exists>e. retrieve tname ex st name n = Inl e \<and> kind e = ConversionError)
         = (ex (if nargs p = 0 then to_string_bool (default_value p \<noteq> ''0'')
                     else split (default_value p) (to_int n)) = None))
      \<and> (\<forall>v. (retrieve tname ex st name n = Inr v)
             = (ex (if nargs p = 0 then to_string_bool (default_value p \<noteq> ''0'')
                    else split (default_value p) (to_int n)) = Some v)))
   \<and> (digits \<noteq> [] \<and> (\<forall>c\<in>set digits. isdigit c) \<and> \<not> isdigit x \<longrightarrow>
        extract_int (digits @ x # rest) = extract_int digits)"
  by (auto simp: retrieve_def convert_def extract_int_def extract_integer_prefix
      split: option.splits)

theorem retrieve_fails_iff_extraction_fails_witness:
  "retrieve ''i'' extract_int (demo\<lparr>values' := [''count'' \<mapsto> ''x5'']\<rparr>) ''count'' 0
     = Inl (invalid_conversion ''x5'' ''i'')
   \<and> extract_int ''x5'' = None
   \<and> retrieve ''i'' extract_int (demo\<lparr>values' := [''verbose'' \<mapsto> ''1'']\<rparr>) ''count'' 0 = Inr 1
   \<and> extract_int ''12x'' = extract_int ''12''"
proof -
  note t = retrieve_fails_iff_extraction_fails [where tname = "''i''" and ex = extract_int
      and n = 0]
  have a: "values' (demo\<lparr>values' := [''count'' \<mapsto> ''x5'']\<rparr>) ''count'' = Some ''x5''" by simp
  have s: "split ''x5'' (to_int 0) = ''x5''" by (simp add: split_def substr_def to_int_def)
  have x: "extract_int ''x5'' = None" by (simp add: conv_eval)
  from t [where st = "demo\<lparr>values' := [''count'' \<mapsto> ''x5'']\<rparr>" and name = "''count''" and raw = "''x5''",
      THEN conjunct1, rule_format, OF a, THEN conjunct1] s x
  obtain e where e: "retrieve ''i'' extract_int (demo\<lparr>values' := [''count'' \<mapsto> ''x5'']\<rparr>) ''count'' 0 = Inl e"
    by auto
  then have 1: "retrieve ''i'' extract_int (demo\<lparr>values' := [''count'' \<mapsto> ''x5'']\<rparr>) ''count'' 0
     = Inl (invalid_conversion ''x5'' ''i'')"
    by (simp add: conv_eval)
  let ?p = "\<lparr>nargs = 1, default_value = ''1'', description = [], user_option = True\<rparr>"
  have b: "values' (demo\<lparr>values' := [''verbose'' \<mapsto> ''1'']\<rparr>) ''count'' = None
    \<and> find_option (options (demo\<lparr>values' := [''verbose'' \<mapsto> ''1'']\<rparr>)) ''count'' = Some ?p
    \<and> default_value ?p \<noteq> []"
    by (simp add: demo_def demo_options_def find_option_def)
  have d: "extract_int (if nargs ?p = 0 then to_string_bool (default_value ?p \<noteq> ''0'')
                       else split (default_value ?p) (to_int 0)) = Some 1"
    by (simp add: conv_eval)
  note u = t [where st = "demo\<lparr>values' := [''verbose'' \<mapsto> ''1'']\<rparr>" and name = "''count''"
      and p = ?p, THEN conjunct2, THEN conjunct1, rule_format, OF b]
  from u [THEN conjunct2, rule_format, of 1, THEN iffD2, OF d]
  have 2: "retrieve ''i'' extract_int (demo\<lparr>values' := [''verbose'' \<mapsto> ''1'']\<rparr>) ''count'' 0 = Inr 1" .
  have c: "''12'' \<noteq> [] \<and> (\<forall>c\<in>set ''12''. isdigit c) \<and> \<not> isdigit CHR ''x''"
    by (simp add: isdigit_def)
  from t [where digits = "''12''" and x = "CHR ''x''" and rest = "[]",
      THEN conjunct2, THEN conjunct2, rule_format, OF c]
  have 3: "extract_int ''12x'' = extract_int ''12''" by simp
  from 1 x 2 3 show ?thesis by blast
qed

text \<open>
  The claim C4 itself fails: the field \<^verbatim>\<open>5x\<close> is not rejected for \<^verbatim>\<open>int\<close>, it yields 5.
\<close>

theorem retrieve_accepts_trailing_characters:
  "retrieve ''i'' extract_int (demo\<lparr>values' := [''count'' \<mapsto> ''5x'']\<rparr>) ''count'' 0 = Inr 5"
  by (simp add: demo_def demo_options_def conv_eval)

text \<open>
  C5, as the code has it. When the file can be opened, \<^verbatim>\<open>dump\<close> appends the header, one
  entry per option of the registry in its order, and a newline. The entry of an option
  is what the specification says (the stored value; else the default of a user-defined
  option; nothing for a built-in option without a value), except that an unset
  user-defined option whose default is empty also gets a line, \<^verbatim>\<open>name: \<close> with nothing
  after it: the code tests \<^verbatim>\<open>user_option\<close> only.
\<close>

theorem dump_writes_entries:
  assumes "open_app fs pathname = Some old"
  shows "\<exists>fs'. dump st fs mbstr pathname = Inr fs'
           \<and> files fs' pathname =
               Some (old @ dump_header mbstr
                      @ concat (map (dump_entry (values' st)) (options st)) @ [nl])
           \<and> (\<forall>option\<in>set (options st).
                 dump_entry (values' st) option =
                   (if values' st (fst option) = None \<and> user_option (snd option)
                       \<and> default_value (snd option) = []
                    then fst option @ '': '' @ [nl]
                    else dump_entry_spec (values' st) option))"
  using assms
  by (auto simp: dump_def dump_text_def dump_entry_def dump_entry_spec_def Let_def
      split: option.splits)

theorem dump_writes_entries_witness:
  "open_app no_files ''cfg'' = Some []
   \<and> (\<exists>fs'. dump two_set no_files stamp ''cfg'' = Inr fs'
         \<and> files fs' ''cfg'' =
             Some ([nl] @ ''# Created automaticaly by optparse on '' @ stamp @ [nl] @ [nl]
                    @ ''count: 1'' @ [nl] @ ''verbose: 1'' @ [nl] @ [nl]))"
proof -
  have a: "open_app no_files ''cfg'' = Some []" by (simp add: open_app_def no_files_def)
  from dump_writes_entries [OF a, of two_set stamp] obtain fs' where
    d: "dump two_set no_files stamp ''cfg'' = Inr fs'"
    and f: "files fs' ''cfg'' = Some ([] @ dump_header stamp
                      @ concat (map (dump_entry (values' two_set)) (options two_set)) @ [nl])"
    by blast
  have "[] @ dump_header stamp @ concat (map (dump_entry (values' two_set)) (options two_set)) @ [nl]
     = [nl] @ ''# Created automaticaly by optparse on '' @ stamp @ [nl] @ [nl]
                    @ ''count: 1'' @ [nl] @ ''verbose: 1'' @ [nl] @ [nl]"
    by (simp add: two_set_def demo_def demo_options_def dump_header_def dump_entry_def
        help_parameters_def load_parameters_def stamp_def)
  with a d f show ?thesis by simp
qed

text \<open>
  The claim C5 itself fails: \<^verbatim>\<open>out\<close> is user-defined, unset and has the empty default,
  and \<^verbatim>\<open>dump\<close> writes the line \<^verbatim>\<open>out: \<close> for it, where the specification writes nothing.
\<close>

theorem dump_writes_empty_default:
  "values' needy ''out'' = None
   \<and> find_option (options needy) ''out''
       = Some \<lparr>nargs = 1, default_value = [], description = [], user_option = True\<rparr>
   \<and> dump needy no_files stamp ''cfg'' =
       Inr (no_files\<lparr>files := [''cfg'' \<mapsto> [nl] @ ''# Created automaticaly by optparse on '' @ stamp
                                    @ [nl] @ [nl]
                                    @ ''out: '' @ [nl] @ [nl]]\<rparr>)
   \<and> dump_entry_spec (values' needy)
        (''out'', \<lparr>nargs = 1, default_value = [], description = [], user_option = True\<rparr>) = []"
  by (simp add: needy_def no_files_def dump_def open_app_def dump_text_def dump_header_def
      dump_entry_def dump_entry_spec_def help_parameters_def load_parameters_def find_option_def
      stamp_def)

text \<open>
  C9. A line of the configuration file that, stripped of all white space, is not empty,
  does not start with \<^verbatim>\<open>#\<close> and has no colon is taken whole as the key and, since
  \<^verbatim>\<open>npos + 1\<close> is 0, whole as the value. If the key is not registered \<^verbatim>\<open>load\<close> throws
  the unexpected-option error (kind UnknownOption) when it reaches the line; if it is
  registered and not yet set in this file, the key is stored as its own value, and
  every mapping that \<^verbatim>\<open>load\<close> returns for the file stores it so.
\<close>

theorem load_line_without_colon:
  assumes "filter (\<lambda>c. \<not> isspace c) raw = key" and "key \<noteq> []" and "hd key \<noteq> CHR ''#''"
      and "CHR '':'' \<notin> set key"
      and "open_in fs pathname = Some content" and "getlines content = before @ raw # rest"
  shows "load_lines opts vals (raw # rest) =
           (if find_option opts key = None then Inl (unexpected_in_file key)
            else if vals key \<noteq> None then Inl (duplicate_in_file key)
            else load_lines opts (vals(key \<mapsto> key)) rest)
       \<and> (\<forall>m. load opts fs pathname = Inr m \<longrightarrow> find_option opts key \<noteq> None \<and> m key = Some key)
       \<and> (find_option opts key = None \<longrightarrow>
            (\<exists>e. load opts fs pathname = Inl e)
            \<and> (\<forall>m. load_lines opts Map.empty before = Inr m \<longrightarrow>
                   load opts fs pathname = Inl (unexpected_in_file key)
                   \<and> kind (unexpected_in_file key) = UnknownOption))"
proof -
  note step = load_lines_no_colon [OF assms(1-4)]
  have ld: "load opts fs pathname =
      (case load_lines opts Map.empty before of
         Inl e \<Rightarrow> Inl e | Inr m \<Rightarrow> load_lines opts m (raw # rest))"
    using assms(5,6) by (simp add: load_def load_lines_append del: load_lines.simps(2))
  have 2: "find_option opts key \<noteq> None \<and> m key = Some key" if "load opts fs pathname = Inr m" for m
  proof (cases "load_lines opts Map.empty before")
    case (Inl e)
    with that ld show ?thesis by simp
  next
    case (Inr m0)
    with that ld have "load_lines opts m0 (raw # rest) = Inr m"
      by (simp del: load_lines.simps(2))
    then have r: "(if find_option opts key = None then Inl (unexpected_in_file key)
            else if m0 key \<noteq> None then Inl (duplicate_in_file key)
            else load_lines opts (m0(key \<mapsto> key)) rest) = Inr m"
      unfolding load_lines_no_colon [OF assms(1-4)] .
    then have f: "find_option opts key \<noteq> None"
      and l: "load_lines opts (m0(key \<mapsto> key)) rest = Inr m"
      by (auto split: if_splits)
    from load_lines_keeps [OF l, of key key] f show ?thesis by simp
  qed
  have 3: "(\<exists>e. load opts fs pathname = Inl e)
            \<and> (\<forall>m. load_lines opts Map.empty before = Inr m \<longrightarrow>
                   load opts fs pathname = Inl (unexpected_in_file key)
                   \<and> kind (unexpected_in_file key) = UnknownOption)"
    if "find_option opts key = None"
  proof (cases "load_lines opts Map.empty before")
    case (Inl e)
    with ld show ?thesis by simp
  next
    case (Inr m0)
    have "load_lines opts m0 (raw # rest) = Inl (unexpected_in_file key)"
      unfolding load_lines_no_colon [OF assms(1-4)] using that by simp
    with Inr ld show ?thesis by (simp del: load_lines.simps(2))
  qed
  from step 2 3 show ?thesis by blast
qed

theorem load_line_without_colon_witness:
  "load demo_options bare_files ''cfg'' = Inr [''verbose'' \<mapsto> ''verbose'']
   \<and> load demo_options bare_files ''bad'' = Inl (unexpected_in_file ''colour'')"
proof -
  have sp: "filter (\<lambda>c. \<not> isspace c) '' verbose '' = ''verbose''" by (simp add: isspace_def)
  have a: "''verbose'' \<noteq> []" "hd ''verbose'' \<noteq> CHR ''#''" "CHR '':'' \<notin> set ''verbose''"
    by simp_all
  have o: "open_in bare_files ''cfg'' = Some (''# settings'' @ [nl] @ '' verbose '' @ [nl])"
    by (simp add: open_in_def bare_files_def)
  have g: "getlines (''# settings'' @ [nl] @ '' verbose '' @ [nl]) = [''# settings''] @ '' verbose '' # []"
    by (simp add: getlines_def nl_def)
  have l: "load demo_options bare_files ''cfg'' = Inr [''verbose'' \<mapsto> ''verbose'']"
    by (simp add: demo_eval bare_files_def)
  have sp2: "filter (\<lambda>c. \<not> isspace c) ''colour'' = ''colour''" by (simp add: isspace_def)
  have a2: "''colour'' \<noteq> []" "hd ''colour'' \<noteq> CHR ''#''" "CHR '':'' \<notin> set ''colour''"
    by simp_all
  have o2: "open_in bare_files ''bad'' = Some (''count: 2'' @ [nl] @ ''colour'' @ [nl])"
    by (simp add: open_in_def bare_files_def)
  have g2: "getlines (''count: 2'' @ [nl] @ ''colour'' @ [nl]) = [''count: 2''] @ ''colour'' # []"
    by (simp add: getlines_def nl_def)
  have f2: "find_option demo_options ''colour'' = None"
    by (simp add: find_option_def demo_options_def)
  have b2: "load_lines demo_options Map.empty [''count: 2''] = Inr [''count'' \<mapsto> ''2'']"
    by (simp add: demo_eval)
  note t1 = load_line_without_colon [OF sp a o g, of demo_options Map.empty]
  note t2 = load_line_without_colon [OF sp2 a2 o2 g2, of demo_options Map.empty]
  from t1 l have "[''verbose'' \<mapsto> ''verbose''] ''verbose'' = Some ''verbose''" by blast
  from t2 f2 b2 have "load demo_options bare_files ''bad'' = Inl (unexpected_in_file ''colour'')"
    by blast
  with l show ?thesis by simp
qed




text \<open>
  C8, as the code has it. Let the file at the path be absent or empty and the path be
  accessible, the names of the registry be distinct and plain (no white space, no colon,
  no \<^verbatim>\<open>#\<close> in front), and neither the time stamp nor a value or default that \<^verbatim>\<open>dump\<close>
  writes contain a line break. Then \<^verbatim>\<open>dump\<close> to the path followed by \<^verbatim>\<open>load\<close> of the path
  succeeds, and the loaded map assigns to every option that has a stored value, and to
  every unset user-defined option, the stored or default value with all white space
  removed: the stored value itself when it has no white space.
\<close>

theorem dump_then_load:
  assumes "open_app fs pathname = Some []"
      and "distinct (map fst (options st))"
      and "\<forall>option\<in>set (options st). plain_name (fst option)"
      and "\<forall>option\<in>set (options st). \<forall>w. written_value (values' st) option = Some w \<longrightarrow> nl \<notin> set w"
      and "nl \<notin> set mbstr"
    shows "\<exists>fs' m. dump st fs mbstr pathname = Inr fs' \<and> load (options st) fs' pathname = Inr m
             \<and> (\<forall>option\<in>set (options st).
                   m (fst option) = map_option strip (written_value (values' st) option)
                   \<and> (\<forall>v. values' st (fst option) = Some v \<and> (\<forall>c\<in>set v. \<not> isspace c)
                          \<longrightarrow> m (fst option) = Some v))"
proof -
  let ?opts = "options st" and ?vals = "values' st"
  let ?text = "dump_header mbstr @ concat (map (dump_entry ?vals) ?opts) @ [nl]"
  let ?fs' = "fs\<lparr>files := (files fs)(pathname \<mapsto> ?text)\<rparr>"
  from assms(1) have nd: "\<not> denied fs pathname"
    by (auto simp: open_app_def split: if_splits)
  from assms(1) have d: "dump st fs mbstr pathname = Inr ?fs'"
    by (simp add: dump_def dump_text_def)
  have o: "open_in ?fs' pathname = Some ?text" using nd by (simp add: open_in_def)
  have names: "\<forall>option\<in>set ?opts. \<forall>w. written_value ?vals option = Some w \<longrightarrow>
             nl \<notin> set (fst option) \<and> nl \<notin> set w"
    using assms(3,4) isspace_nl by (auto simp: plain_name_def)
  from getlines_header [OF assms(5)] obtain l where
    "getlines ?text = [] # (CHR ''#'' # l) # []
        # getlines_from [] (concat (map (dump_entry ?vals) ?opts) @ [nl])"
    unfolding getlines_def by blast
  also have "getlines_from [] (concat (map (dump_entry ?vals) ?opts) @ [nl]) =
      List.map_filter (\<lambda>option. map_option (\<lambda>w. fst option @ '': '' @ w)
                                        (written_value ?vals option)) ?opts @ [[]]"
    using getlines_entries [OF names, of "[nl]"] by simp
  finally have lines: "getlines ?text = [] # (CHR ''#'' # l) # []
        # List.map_filter (\<lambda>option. map_option (\<lambda>w. fst option @ '': '' @ w)
                                        (written_value ?vals option)) ?opts @ [[]]" .
  have reg: "\<forall>option\<in>set ?opts. find_option ?opts (fst option) \<noteq> None"
    by (auto simp: find_option_def map_of_eq_None_iff intro: rev_image_eqI)
  have pl: "\<forall>option\<in>set ?opts. plain_name (fst option) \<and> Map.empty (fst option) = None"
    using assms(3) by simp
  have ld: "load ?opts ?fs' pathname = Inr (reloaded ?vals ?opts Map.empty)"
    unfolding load_def o option.case lines load_lines_blank load_lines_comment
      load_dumped_entries [OF assms(2) reg pl]
    by simp
  have "reloaded ?vals ?opts Map.empty (fst option)
          = map_option strip (written_value ?vals option)"
    if "option \<in> set ?opts" for option
  proof -
    from that assms(2) have "map_of ?opts (fst option) = Some (snd option)" by simp
    then show ?thesis by (simp add: reloaded_def split: option.splits)
  qed
  moreover have "strip v = v" if "\<forall>c\<in>set v. \<not> isspace c" for v
    using that by (simp add: strip_def)
  ultimately have "\<forall>option\<in>set ?opts.
       reloaded ?vals ?opts Map.empty (fst option) = map_option strip (written_value ?vals option)
       \<and> (\<forall>v. ?vals (fst option) = Some v \<and> (\<forall>c\<in>set v. \<not> isspace c)
              \<longrightarrow> reloaded ?vals ?opts Map.empty (fst option) = Some v)"
    by (auto simp: written_value_def)
  with d ld show ?thesis by blast
qed

theorem dump_then_load_witness:
  "\<exists>fs' m. dump two_set no_files stamp ''cfg'' = Inr fs'
      \<and> load (options two_set) fs' ''cfg'' = Inr m
      \<and> m ''verbose'' = Some ''1'' \<and> m ''count'' = Some ''1''"
proof -
  have 1: "open_app no_files ''cfg'' = Some []" by (simp add: open_app_def no_files_def)
  have 2: "distinct (map fst (options two_set))"
    by (simp add: two_set_def demo_def demo_options_def)
  have 3: "\<forall>option\<in>set (options two_set). plain_name (fst option)"
    by (simp add: two_set_def demo_def demo_options_def plain_name_def isspace_def)
  have 4: "\<forall>option\<in>set (options two_set). \<forall>w.
      written_value (values' two_set) option = Some w \<longrightarrow> nl \<notin> set w"
    by (simp add: two_set_def demo_def demo_options_def written_value_def nl_def
        help_parameters_def load_parameters_def)
  have 5: "nl \<notin> set stamp" by (simp add: nl_def stamp_def)
  from dump_then_load [OF 1 2 3 4 5] obtain fs' m where
    d: "dump two_set no_files stamp ''cfg'' = Inr fs'"
    and l: "load (options two_set) fs' ''cfg'' = Inr m"
    and a: "\<forall>option\<in>set (options two_set).
              m (fst option) = map_option strip (written_value (values' two_set) option)"
    by blast
  have v: "(''verbose'', \<lparr>nargs = 0, default_value = ''0'', description = [], user_option = True\<rparr>)
      \<in> set (options two_set)"
    and c: "(''count'', \<lparr>nargs = 1, default_value = ''1'', description = [], user_option = True\<rparr>)
      \<in> set (options two_set)"
    by (simp_all add: two_set_def demo_def demo_options_def)
  from a [rule_format, OF v] have "m ''verbose'' = Some ''1''"
    by (simp add: written_value_def two_set_def strip_def isspace_def)
  moreover from a [rule_format, OF c] have "m ''count'' = Some ''1''"
    by (simp add: written_value_def two_set_def strip_def isspace_def)
  ultimately show ?thesis using d l by blast
qed

text \<open>
  The claim C8 itself fails in three ways. \<^verbatim>\<open>dump\<close> appends, so after a second \<^verbatim>\<open>dump\<close>
  to the same path \<^verbatim>\<open>load\<close> finds \<^verbatim>\<open>count\<close> twice and throws; an option name with a
  colon (\<^verbatim>\<open>a:b\<close>) is cut at the colon when read back, and \<^verbatim>\<open>load\<close> throws for the unknown
  option \<^verbatim>\<open>a\<close>; a default with a line break is written as two lines, and \<^verbatim>\<open>load\<close> throws
  for the second.
\<close>

theorem dump_then_load_fails:
  "dump two_set no_files stamp ''cfg'' = Inr (no_files\<lparr>files := [''cfg'' \<mapsto> dump_text stamp two_set]\<rparr>)
   \<and> dump two_set (no_files\<lparr>files := [''cfg'' \<mapsto> dump_text stamp two_set]\<rparr>) stamp ''cfg''
       = Inr (no_files\<lparr>files := [''cfg'' \<mapsto> dump_text stamp two_set @ dump_text stamp two_set]\<rparr>)
   \<and> load (options two_set)
        (no_files\<lparr>files := [''cfg'' \<mapsto> dump_text stamp two_set @ dump_text stamp two_set]\<rparr>) ''cfg''
       = Inl (duplicate_in_file ''count'')
   \<and> dump colon_named no_files stamp ''cfg''
       = Inr (no_files\<lparr>files := [''cfg'' \<mapsto> dump_text stamp colon_named]\<rparr>)
   \<and> load (options colon_named) (no_files\<lparr>files := [''cfg'' \<mapsto> dump_text stamp colon_named]\<rparr>) ''cfg''
       = Inl (unexpected_in_file ''a'')
   \<and> dump two_line_default no_files stamp ''cfg''
       = Inr (no_files\<lparr>files := [''cfg'' \<mapsto> dump_text stamp two_line_default]\<rparr>)
   \<and> load (options two_line_default)
        (no_files\<lparr>files := [''cfg'' \<mapsto> dump_text stamp two_line_default]\<rparr>) ''cfg''
       = Inl (unexpected_in_file ''2'')"
  by (simp add: dump_def dump_text_def dump_header_def dump_entry_def open_app_def
      no_files_def two_set_def demo_def demo_options_def help_parameters_def
      load_parameters_def load_def open_in_def getlines_def find_option_def substr_def
      isspace_def nl_def Let_def colon_named_def two_line_default_def stamp_def)

end
